theory Spec2Isabelle
  imports Main "HOL-Library.Word"
begin

unbundle bit_operations_syntax

section \<open>Data model (siddefs.h, wave.h)\<close>

text \<open>
  siddefs.h declares every register type (reg4 .. reg24) as \<^verbatim>\<open>unsigned int\<close> and
  \<^verbatim>\<open>cycle_count\<close> as \<^verbatim>\<open>int\<close>; an int is assumed to have 32 bits.  Unsigned
  registers are 32-bit words whose arithmetic wraps modulo \<open>2 ^ 32\<close>.  A \<^verbatim>\<open>cycle_count\<close>
  is a 32-bit word read in two's complement (\<open>sint\<close>) wherever the source compares it;
  its arithmetic wraps where that of an int would overflow.
  The \<^verbatim>\<open>unsigned short\<close> helper variables are 16-bit words.
\<close>

type_synonym reg8 = "32 word"
type_synonym reg12 = "32 word"
type_synonym reg24 = "32 word"
type_synonym cycle_count = "32 word"
type_synonym ushort = "16 word"

datatype chip_model = MOS6581 | MOS8580

text \<open>
  The three voices of \<^verbatim>\<open>SIDOsc::voice[3]\<close>.  A \<^verbatim>\<open>WaveformGenerator*\<close> is the index of
  the voice that owns the generator pointed to.
\<close>

datatype voice_id = V0 | V1 | V2

text \<open>
  The fields of \<^verbatim>\<open>class WaveformGenerator\<close>, in the order of wave.h.  \<open>wave\<close> is the
  pointer into \<^verbatim>\<open>model_wave[2][8][1 << 12]\<close>: the table it points to, as a function of
  the index.  The table has \<open>4096\<close> entries; the read of an entry checks the index
  (see \<open>set_waveform_output_with\<close>).
\<close>

record WaveformGenerator =
  sync_source :: voice_id
  sync_dest :: voice_id
  accumulator :: reg24
  msb_rising :: bool
  freq :: reg24
  pw :: reg12
  shift_register :: reg24
  shift_register_reset :: cycle_count
  shift_pipeline :: cycle_count
  ring_msb_mask :: reg24
  no_noise :: ushort
  noise_output :: ushort
  no_noise_or_noise_output :: ushort
  no_pulse :: ushort
  pulse_output :: ushort
  waveform :: reg8
  tri_saw_pipeline :: reg12
  osc3 :: reg12
  test :: reg8
  ring_mod :: reg8
  sync :: reg8
  waveform_output :: reg12
  floating_output_ttl :: cycle_count
  sid_model :: chip_model
  wave :: "nat \<Rightarrow> ushort"

type_synonym voices = "voice_id \<Rightarrow> WaveformGenerator"

section \<open>Noise shift register (wave.h, lines 320-375)\<close>

definition set_noise_output :: "WaveformGenerator \<Rightarrow> WaveformGenerator" where
  "set_noise_output g =
     (let n = (ucast
           (drop_bit 9 (shift_register g AND 0x100000) OR
            drop_bit 8 (shift_register g AND 0x040000) OR
            drop_bit 5 (shift_register g AND 0x004000) OR
            drop_bit 3 (shift_register g AND 0x000800) OR
            drop_bit 2 (shift_register g AND 0x000200) OR
            push_bit 1 (shift_register g AND 0x000020) OR
            push_bit 3 (shift_register g AND 0x000004) OR
            push_bit 4 (shift_register g AND 0x000001)) :: ushort)
      in g\<lparr>noise_output := n, no_noise_or_noise_output := no_noise g OR n\<rparr>)"

definition clock_shift_register :: "WaveformGenerator \<Rightarrow> WaveformGenerator" where
  "clock_shift_register g =
     (let bit0 = (drop_bit 22 (shift_register g) XOR drop_bit 17 (shift_register g)) AND 0x1
      in set_noise_output
           (g\<lparr>shift_register := (push_bit 1 (shift_register g) OR bit0) AND 0x7fffff\<rparr>))"

text \<open>
  \<^verbatim>\<open>~((1<<20)|...|(1<<0))\<close> is an int; or-ed with the unsigned terms it is converted to
  unsigned, which keeps its 32 bits.  \<^verbatim>\<open>noise_output &= waveform_output\<close> computes in
  unsigned int and stores the low 16 bits.
\<close>

definition write_shift_register :: "WaveformGenerator \<Rightarrow> WaveformGenerator" where
  "write_shift_register g =
     (let w = waveform_output g;
          n = (ucast ((ucast (noise_output g) :: 32 word) AND w) :: ushort)
      in g\<lparr>shift_register := shift_register g AND
             (NOT (push_bit 20 1 OR push_bit 18 1 OR push_bit 14 1 OR push_bit 11 1 OR
                   push_bit 9 1 OR push_bit 5 1 OR push_bit 2 1 OR push_bit 0 1) OR
              push_bit 9 (w AND 0x800) OR
              push_bit 8 (w AND 0x400) OR
              push_bit 5 (w AND 0x200) OR
              push_bit 3 (w AND 0x100) OR
              push_bit 2 (w AND 0x080) OR
              drop_bit 1 (w AND 0x040) OR
              drop_bit 3 (w AND 0x020) OR
              drop_bit 4 (w AND 0x010)),
           noise_output := n,
           no_noise_or_noise_output := no_noise g OR n\<rparr>)"

definition reset_shift_register :: "WaveformGenerator \<Rightarrow> WaveformGenerator" where
  "reset_shift_register g =
     set_noise_output (g\<lparr>shift_register := 0x7fffff, shift_register_reset := 0\<rparr>)"

section \<open>Clocking (wave.h, lines 144-244)\<close>

text \<open>SID clocking - 1 cycle.\<close>

definition clock :: "WaveformGenerator \<Rightarrow> WaveformGenerator" where
  "clock g =
     (if test g \<noteq> 0 then
        (let g1 =
           (if shift_register_reset g \<noteq> 0 then
              (let g' = g\<lparr>shift_register_reset := shift_register_reset g - 1\<rparr>
               in if shift_register_reset g' = 0 then reset_shift_register g' else g')
            else g)
         in g1\<lparr>pulse_output := 0xfff\<rparr>)
      else
        (let accumulator_next = (accumulator g + freq g) AND 0xffffff;
             accumulator_bits_set = NOT (accumulator g) AND accumulator_next;
             g1 = g\<lparr>accumulator := accumulator_next,
                    msb_rising := (accumulator_bits_set AND 0x800000 \<noteq> 0)\<rparr>
         in if accumulator_bits_set AND 0x080000 \<noteq> 0 then g1\<lparr>shift_pipeline := 2\<rparr>
            else if shift_pipeline g1 \<noteq> 0 then
              (let g2 = g1\<lparr>shift_pipeline := shift_pipeline g1 - 1\<rparr>
               in if shift_pipeline g2 = 0 then clock_shift_register g2 else g2)
            else g1))"

text \<open>
  The \<^verbatim>\<open>while (delta_accumulator)\<close> loop of the delta clock, with its two loop
  variables as arguments.  The loop does not return when it is entered with
  \<open>shift_period = 0\<close>, so it is a partial function: \<open>None\<close> is non-termination.
  \<^verbatim>\<open>clock(cycle_count)\<close> enters it with \<open>shift_period = 0x100000\<close>.
\<close>

partial_function (option) shift_loop ::
  "reg24 \<Rightarrow> reg24 \<Rightarrow> WaveformGenerator \<Rightarrow> WaveformGenerator option" where
  "shift_loop delta_accumulator shift_period g =
     (if delta_accumulator = 0 then Some g
      else if delta_accumulator < shift_period then
        (if delta_accumulator \<le> 0x080000 then
           (if (accumulator g - delta_accumulator) AND 0x080000 \<noteq> 0
                 \<or> \<not> (accumulator g AND 0x080000 \<noteq> 0)
            then Some g
            else shift_loop (delta_accumulator - delta_accumulator) delta_accumulator
                   (clock_shift_register g))
         else
           (if (accumulator g - delta_accumulator) AND 0x080000 \<noteq> 0
                 \<and> \<not> (accumulator g AND 0x080000 \<noteq> 0)
            then Some g
            else shift_loop (delta_accumulator - delta_accumulator) delta_accumulator
                   (clock_shift_register g)))
      else shift_loop (delta_accumulator - shift_period) shift_period
             (clock_shift_register g))"

text \<open>
  SID clocking - delta_t cycles.  \<^verbatim>\<open>delta_t*freq\<close> multiplies an int by an unsigned
  int: the product is unsigned, modulo \<open>2 ^ 32\<close>.
\<close>

definition clock_delta :: "cycle_count \<Rightarrow> WaveformGenerator \<Rightarrow> WaveformGenerator option" where
  "clock_delta delta_t g =
     (if test g \<noteq> 0 then
        (let g1 =
           (if shift_register_reset g \<noteq> 0 then
              (let g' = g\<lparr>shift_register_reset := shift_register_reset g - delta_t\<rparr>
               in if sint (shift_register_reset g') \<le> 0 then reset_shift_register g' else g')
            else g)
         in Some (g1\<lparr>pulse_output := 0xfff\<rparr>))
      else
        (let delta_accumulator = delta_t * freq g;
             accumulator_next = (accumulator g + delta_accumulator) AND 0xffffff;
             accumulator_bits_set = NOT (accumulator g) AND accumulator_next;
             g1 = g\<lparr>accumulator := accumulator_next,
                    msb_rising := (accumulator_bits_set AND 0x800000 \<noteq> 0)\<rparr>
         in case shift_loop delta_accumulator 0x100000 g1 of
              None \<Rightarrow> None
            | Some g2 \<Rightarrow>
                Some (g2\<lparr>pulse_output :=
                           (if drop_bit 12 (accumulator g2) \<ge> pw g2 then 0xfff else 0x000)\<rparr>)))"

section \<open>Synchronization (wave.h, lines 254-263)\<close>

text \<open>
  \<^verbatim>\<open>synchronize()\<close> of the generator of voice \<open>v\<close>: it reads its own fields, the
  \<open>sync\<close> bit of its destination and \<open>msb_rising\<close> of its source, and writes the
  accumulator of its destination.
\<close>

definition synchronize :: "voice_id \<Rightarrow> voices \<Rightarrow> voices" where
  "synchronize v s =
     (let g = s v; d = sync_dest g
      in if msb_rising g \<and> sync (s d) \<noteq> 0
              \<and> \<not> (sync g \<noteq> 0 \<and> msb_rising (s (sync_source g)))
         then s(d := (s d)\<lparr>accumulator := 0\<rparr>)
         else s)"

section \<open>Waveform output (wave.h, lines 491-672)\<close>

definition noise_pulse6581 :: "reg12 \<Rightarrow> reg12" where
  "noise_pulse6581 noise =
     (if noise < 0xf00 then 0x000 else noise AND push_bit 1 noise AND push_bit 2 noise)"

definition noise_pulse8580 :: "reg12 \<Rightarrow> reg12" where
  "noise_pulse8580 noise =
     (if noise < 0xfc0 then noise AND push_bit 1 noise else 0xfc0)"

text \<open>
  The pulse level pushed into the pipeline at the end of \<^verbatim>\<open>set_waveform_output()\<close>:
  \<^verbatim>\<open>-((accumulator >> 12) >= pw) & 0xfff\<close>, stored in an unsigned short.
\<close>

definition pulse_level :: "WaveformGenerator \<Rightarrow> ushort" where
  "pulse_level g =
     ucast ((- (if drop_bit 12 (accumulator g) \<ge> pw g then 1 else 0 :: 32 word)) AND 0xfff)"

text \<open>
  \<^verbatim>\<open>set_waveform_output()\<close> with \<^verbatim>\<open>RESID_FPGA_CODE 0\<close> (siddefs.h), block by
  block.  The index of the table lookup; the argument \<open>source_accumulator\<close> is
  \<^verbatim>\<open>sync_source->accumulator\<close>.
\<close>

definition wave_index :: "reg24 \<Rightarrow> WaveformGenerator \<Rightarrow> nat" where
  "wave_index source_accumulator g =
     unat (drop_bit 12 (accumulator g XOR (NOT source_accumulator AND ring_msb_mask g)))"

text \<open>
  Lines 583-590.  The operands of
  \<^verbatim>\<open>wave[ix] & (no_pulse | pulse_output) & no_noise_or_noise_output\<close> are unsigned
  shorts; the result is zero-extended into the register.
\<close>

definition select_output :: "nat \<Rightarrow> WaveformGenerator \<Rightarrow> WaveformGenerator" where
  "select_output ix g =
     (let w = (ucast (wave g ix AND (no_pulse g OR pulse_output g)
                       AND no_noise_or_noise_output g) :: reg12)
      in g\<lparr>waveform_output :=
             (if waveform g AND 0xc = 0xc
              then (if sid_model g = MOS6581 then noise_pulse6581 w else noise_pulse8580 w)
              else w)\<rparr>)"

text \<open>Lines 595-603: the triangle/sawtooth pipeline of the 8580 and OSC3.\<close>

definition latch_osc3 :: "nat \<Rightarrow> WaveformGenerator \<Rightarrow> WaveformGenerator" where
  "latch_osc3 ix g =
     (if waveform g AND 3 \<noteq> 0 \<and> sid_model g = MOS8580
      then g\<lparr>osc3 := tri_saw_pipeline g AND ucast (no_pulse g OR pulse_output g)
                       AND ucast (no_noise_or_noise_output g),
             tri_saw_pipeline := ucast (wave g ix)\<rparr>
      else g\<lparr>osc3 := waveform_output g\<rparr>)"

text \<open>Lines 605-609: combined waveforms with sawtooth drive the accumulator MSB low.\<close>

definition drive_msb :: "WaveformGenerator \<Rightarrow> WaveformGenerator" where
  "drive_msb g =
     (if waveform g AND 0x2 \<noteq> 0 \<and> waveform g AND 0xd \<noteq> 0 \<and> sid_model g = MOS6581
      then g\<lparr>accumulator := accumulator g AND (push_bit 12 (waveform_output g) OR 0x7fffff)\<rparr>
      else g)"

text \<open>Lines 611-614: combined waveforms with noise write to the shift register.\<close>

definition write_back :: "WaveformGenerator \<Rightarrow> WaveformGenerator" where
  "write_back g =
     (if waveform g > 0x8 \<and> test g = 0 \<and> shift_pipeline g \<noteq> 1
      then write_shift_register g
      else g)"

text \<open>Lines 616-621: no waveform selected, the floating DAC input ages.\<close>

definition age_floating_output :: "WaveformGenerator \<Rightarrow> WaveformGenerator" where
  "age_floating_output g =
     (if floating_output_ttl g \<noteq> 0 then
        (let g' = g\<lparr>floating_output_ttl := floating_output_ttl g - 1\<rparr>
         in if floating_output_ttl g' = 0
            then g'\<lparr>waveform_output := 0, osc3 := 0\<rparr>
            else g')
      else g)"

text \<open>Line 635: push the next pulse level into the pulse level pipeline.\<close>

definition push_pulse_level :: "WaveformGenerator \<Rightarrow> WaveformGenerator" where
  "push_pulse_level g = g\<lparr>pulse_output := pulse_level g\<rparr>"

text \<open>
  The whole function.  The table pointed to by \<open>wave\<close> has \<open>1 << 12\<close> entries: a
  read at a larger index is outside the array, and the result is \<open>None\<close>.
\<close>

definition set_waveform_output_with ::
  "reg24 \<Rightarrow> WaveformGenerator \<Rightarrow> WaveformGenerator option" where
  "set_waveform_output_with source_accumulator g =
     (if waveform g \<noteq> 0 then
        (let ix = wave_index source_accumulator g
         in if \<not> ix < 4096 then None
            else Some (push_pulse_level
                         (write_back (drive_msb (latch_osc3 ix (select_output ix g))))))
      else Some (push_pulse_level (age_floating_output g)))"

text \<open>
  \<^verbatim>\<open>set_waveform_output(cycle_count delta_t)\<close>: no waveform correction for
  noise and pulse, no 8580 pipeline, no test of the shift pipeline, no pulse level.
\<close>

definition select_output_delta :: "nat \<Rightarrow> WaveformGenerator \<Rightarrow> WaveformGenerator" where
  "select_output_delta ix g =
     (let w = (ucast (wave g ix AND (no_pulse g OR pulse_output g)
                       AND no_noise_or_noise_output g) :: reg12)
      in g\<lparr>waveform_output := w, osc3 := w\<rparr>)"

definition write_back_delta :: "WaveformGenerator \<Rightarrow> WaveformGenerator" where
  "write_back_delta g =
     (if waveform g > 0x8 \<and> test g = 0 then write_shift_register g else g)"

definition age_floating_output_delta :: "cycle_count \<Rightarrow> WaveformGenerator \<Rightarrow> WaveformGenerator" where
  "age_floating_output_delta delta_t g =
     (if floating_output_ttl g \<noteq> 0 then
        (let g' = g\<lparr>floating_output_ttl := floating_output_ttl g - delta_t\<rparr>
         in if sint (floating_output_ttl g') \<le> 0
            then g'\<lparr>floating_output_ttl := 0, waveform_output := 0, osc3 := 0\<rparr>
            else g')
      else g)"

definition set_waveform_output_delta_with ::
  "reg24 \<Rightarrow> cycle_count \<Rightarrow> WaveformGenerator \<Rightarrow> WaveformGenerator option" where
  "set_waveform_output_delta_with source_accumulator delta_t g =
     (if waveform g \<noteq> 0 then
        (let ix = wave_index source_accumulator g
         in if \<not> ix < 4096 then None
            else Some (write_back_delta (drive_msb (select_output_delta ix g))))
      else Some (age_floating_output_delta delta_t g))"

text \<open>The two member functions on the voices: the source's accumulator is read there.\<close>

definition set_waveform_output :: "voice_id \<Rightarrow> voices \<Rightarrow> voices option" where
  "set_waveform_output v s =
     (case set_waveform_output_with (accumulator (s (sync_source (s v)))) (s v) of
        None \<Rightarrow> None
      | Some g \<Rightarrow> Some (s(v := g)))"

definition set_waveform_output_delta :: "voice_id \<Rightarrow> cycle_count \<Rightarrow> voices \<Rightarrow> voices option" where
  "set_waveform_output_delta v delta_t s =
     (case set_waveform_output_delta_with (accumulator (s (sync_source (s v)))) delta_t (s v) of
        None \<Rightarrow> None
      | Some g \<Rightarrow> Some (s(v := g)))"

section \<open>The three voices (SIDOsc.cpp)\<close>

text \<open>
  Modelled from the spec: \<^verbatim>\<open>set_sync_source\<close> is defined in wave.cc and voice.cc,
  which are not among the sources.  The spec (sections 3 and 6): the topology is wired
  by passing each generator a reference to its sync source; each generator observes one
  generator as its sync source and one as its sync destination, and the references form
  a cycle of length 3.  So the call records the source in the generator and the
  generator as the destination of its source.
\<close>

definition set_sync_source :: "voice_id \<Rightarrow> voice_id \<Rightarrow> voices \<Rightarrow> voices" where
  "set_sync_source v source s =
     (let s1 = s(v := (s v)\<lparr>sync_source := source\<rparr>)
      in s1(source := (s1 source)\<lparr>sync_dest := v\<rparr>))"

text \<open>The wiring of the constructor \<^verbatim>\<open>SIDOsc::SIDOsc\<close> (lines 50-53): the sync source of
  voice 0 is voice 2, that of voice 1 is voice 0, that of voice 2 is voice 1.\<close>

definition link_voices :: "voices \<Rightarrow> voices" where
  "link_voices s = set_sync_source V2 V1 (set_sync_source V1 V0 (set_sync_source V0 V2 s))"

definition clock_voice :: "voice_id \<Rightarrow> voices \<Rightarrow> voices" where
  "clock_voice v s = s(v := clock (s v))"

text \<open>
  One pass of the sample loop of \<^verbatim>\<open>SIDOsc::next\<close> (lines 121-130) over the
  generators: clock all three, synchronize all three, set the output of all three.
\<close>

definition clock_all :: "voices \<Rightarrow> voices" where
  "clock_all s = clock_voice V2 (clock_voice V1 (clock_voice V0 s))"

definition synchronize_all :: "voices \<Rightarrow> voices" where
  "synchronize_all s = synchronize V2 (synchronize V1 (synchronize V0 s))"

definition set_waveform_output_all :: "voices \<Rightarrow> voices option" where
  "set_waveform_output_all s =
     (case set_waveform_output V0 s of None \<Rightarrow> None
      | Some s1 \<Rightarrow>
         (case set_waveform_output V1 s1 of None \<Rightarrow> None
          | Some s2 \<Rightarrow> set_waveform_output V2 s2))"

definition sample_cycle :: "voices \<Rightarrow> voices option" where
  "sample_cycle s = set_waveform_output_all (synchronize_all (clock_all s))"

fun sample_cycles :: "nat \<Rightarrow> voices \<Rightarrow> voices option" where
  "sample_cycles 0 s = Some s"
| "sample_cycles (Suc n) s =
     (case sample_cycle s of None \<Rightarrow> None | Some s' \<Rightarrow> sample_cycles n s')"

section \<open>Predicates and iterations used in the statements\<close>

text \<open>
  The ring of the three generators: each field \<open>sync_source\<close> as the constructor of
  SIDOsc sets it, and each field \<open>sync_dest\<close> pointing back.
\<close>

definition ring_wired :: "voices \<Rightarrow> bool" where
  "ring_wired s =
     (sync_source (s V0) = V2 \<and> sync_dest (s V2) = V0 \<and>
      sync_source (s V1) = V0 \<and> sync_dest (s V0) = V1 \<and>
      sync_source (s V2) = V1 \<and> sync_dest (s V1) = V2)"

text \<open>The accumulator and the shift register within their 24 and 23 bits.\<close>

definition registers_in_range :: "WaveformGenerator \<Rightarrow> bool" where
  "registers_in_range g = (accumulator g < 0x1000000 \<and> shift_register g < 0x800000)"

text \<open>
  A sequence of write-backs into the shift register, each with its own digital
  output \<open>w\<close> in \<open>waveform_output\<close>.
\<close>

definition write_backs :: "reg12 list \<Rightarrow> WaveformGenerator \<Rightarrow> WaveformGenerator" where
  "write_backs ws g = fold (\<lambda>w h. write_shift_register (h\<lparr>waveform_output := w\<rparr>)) ws g"

text \<open>
  One generator's \<^verbatim>\<open>set_waveform_output()\<close> called once per element of the list;
  the element is the accumulator of the sync source at that call.
\<close>

fun set_waveform_outputs :: "reg24 list \<Rightarrow> WaveformGenerator \<Rightarrow> WaveformGenerator option" where
  "set_waveform_outputs [] g = Some g"
| "set_waveform_outputs (a # as) g =
     (case set_waveform_output_with a g of
        None \<Rightarrow> None
      | Some g' \<Rightarrow> set_waveform_outputs as g')"

text \<open>
  Every generator has its registers in range and a ring modulation mask within the
  24 bits of the accumulator: then every index into the waveform table is below
  \<open>4096\<close>.
\<close>

definition tables_in_reach :: "voices \<Rightarrow> bool" where
  "tables_in_reach s = (\<forall>v. registers_in_range (s v) \<and> ring_msb_mask (s v) < 0x1000000)"

section \<open>Concrete states\<close>

text \<open>
  A generator at rest on the MOS6581: no waveform selected, all control bits clear, the
  mask variables of a generator without pulse and noise, and a table of all-ones samples.
  The concrete inputs below are variations of it.
\<close>

definition idle_generator :: WaveformGenerator where
  "idle_generator =
     \<lparr>sync_source = V0, sync_dest = V0, accumulator = 0, msb_rising = False,
      freq = 0, pw = 0, shift_register = 0x7fffff, shift_register_reset = 0,
      shift_pipeline = 0, ring_msb_mask = 0, no_noise = 0xfff, noise_output = 0xfff,
      no_noise_or_noise_output = 0xfff, no_pulse = 0xfff, pulse_output = 0xfff,
      waveform = 0, tri_saw_pipeline = 0x555, osc3 = 0, test = 0, ring_mod = 0,
      sync = 0, waveform_output = 0, floating_output_ttl = 0, sid_model = MOS6581,
      wave = (\<lambda>i. 0xfff)\<rparr>"

text \<open>Three generators at rest, wired as the constructor of SIDOsc wires them.\<close>

definition idle_voices :: voices where
  "idle_voices = link_voices (\<lambda>v. idle_generator)"

text \<open>
  Voice 0 has seen its MSB rise; voice 1, its sync destination, has the sync bit
  (control register bit 1) set and a running accumulator.
\<close>

definition sync_voices :: voices where
  "sync_voices =
     idle_voices
       (V0 := (idle_voices V0)\<lparr>msb_rising := True\<rparr>,
        V1 := (idle_voices V1)\<lparr>sync := 0x02, accumulator := 0x123456\<rparr>)"

text \<open>
  Voice 0 with the test bit (control register bit 3) set, the accumulator at zero as
  the test bit leaves it, and a pulse width of 1.
\<close>

definition frozen_voices :: voices where
  "frozen_voices = idle_voices (V0 := (idle_voices V0)\<lparr>test := 0x08, pw := 1\<rparr>)"

text \<open>
  Voice 1 with the test bit and the sync bit set and a non-zero accumulator; voice 0,
  its sync source, is running one step of \<open>0x1000\<close> below the rise of its MSB.
\<close>

definition frozen_dest_voices :: voices where
  "frozen_dest_voices =
     idle_voices
       (V0 := (idle_voices V0)\<lparr>accumulator := 0x7ff000, freq := 0x1000\<rparr>,
        V1 := (idle_voices V1)\<lparr>test := 0x08, sync := 0x02, accumulator := 0x123456\<rparr>)"

text \<open>
  Voice 1 with the pulse waveform selected, the test bit set and a pulse width of
  \<open>0x800\<close>.
\<close>

definition pulse_voices :: voices where
  "pulse_voices =
     idle_voices
       (V1 := (idle_voices V1)\<lparr>test := 0x08, waveform := 0x4, no_pulse := 0, pw := 0x800\<rparr>)"

text \<open>
  Voice 1 running with the pulse waveform selected: the accumulator one step of
  \<open>0x1000\<close> below the pulse width \<open>0x800\<close> in its upper 12 bits.
\<close>

definition running_pulse_voices :: voices where
  "running_pulse_voices =
     idle_voices
       (V1 := (idle_voices V1)\<lparr>waveform := 0x4, no_pulse := 0, pw := 0x800,
                                  accumulator := 0x7ff000, freq := 0x1000\<rparr>)"

text \<open>
  Voice 0 frozen by the test bit with \<open>msb_rising\<close> left set; voice 1, its sync
  destination, has the sync bit set and a running accumulator.
\<close>

definition frozen_sync_voices :: voices where
  "frozen_sync_voices =
     idle_voices
       (V0 := (idle_voices V0)\<lparr>test := 0x08, msb_rising := True\<rparr>,
        V1 := (idle_voices V1)\<lparr>sync := 0x02, accumulator := 0x123456\<rparr>)"

text \<open>A generator with the sawtooth selected and the sawtooth table \<open>wave[i] = i\<close>.\<close>

definition sawtooth_generator :: WaveformGenerator where
  "sawtooth_generator =
     idle_generator\<lparr>waveform := 0x2, accumulator := 0xabcdef, freq := 0x1000,
                     wave := (\<lambda>i. word_of_nat i)\<rparr>"

text \<open>A generator whose floating output \<open>0x7ff\<close> has three cycles to live.\<close>

definition floating_generator :: WaveformGenerator where
  "floating_generator =
     idle_generator\<lparr>waveform_output := 0x7ff, osc3 := 0x7ff, floating_output_ttl := 3\<rparr>"

section \<open>Frame and arithmetic lemmas\<close>

lemmas shift_register_defs =
  clock_shift_register_def set_noise_output_def reset_shift_register_def
  write_shift_register_def Let_def

lemma mask24: "(0xffffff :: 32 word) = mask 24"
  by (simp add: mask_eq_exp_minus_1)

lemma clock_running_accumulator:
  "test g = 0 \<Longrightarrow> accumulator (clock g) = (accumulator g + freq g) AND 0xffffff"
  by (simp add: clock_def shift_register_defs)

lemma clock_freq: "freq (clock g) = freq g"
  by (simp add: clock_def shift_register_defs)

lemma clock_test: "test (clock g) = test g"
  by (simp add: clock_def shift_register_defs)

lemma clock_pow_test: "test ((clock ^^ n) g) = test g"
  by (induction n) (simp_all add: clock_test)

lemma clock_pow_freq: "freq ((clock ^^ n) g) = freq g"
  by (induction n) (simp_all add: clock_freq)

lemma clock_pow_accumulator:
  "test g = 0 \<Longrightarrow>
   accumulator ((clock ^^ Suc n) g) = (accumulator g + word_of_nat (Suc n) * freq g) AND 0xffffff"
proof (induction n)
  case 0
  then show ?case by (simp add: clock_running_accumulator)
next
  case (Suc n)
  have t: "test ((clock ^^ Suc n) g) = 0"
    using Suc.prems by (simp only: clock_pow_test)
  have "accumulator ((clock ^^ Suc (Suc n)) g) =
        (accumulator ((clock ^^ Suc n) g) + freq ((clock ^^ Suc n) g)) AND 0xffffff"
    using clock_running_accumulator [OF t] by simp
  also have "\<dots> = ((accumulator g + word_of_nat (Suc n) * freq g) AND mask 24) + freq g AND mask 24"
    using Suc by (simp only: clock_pow_freq mask24)
  also have "\<dots> = (accumulator g + word_of_nat (Suc n) * freq g + freq g) AND mask 24"
    by (rule mask_eqs)
  also have "\<dots> = (accumulator g + word_of_nat (Suc (Suc n)) * freq g) AND 0xffffff"
    by (simp add: mask24 algebra_simps)
  finally show ?case .
qed

lemma unat_and_mask24:
  "unat ((a + word_of_nat n * f) AND (0xffffff :: 32 word)) = (unat a + n * unat f) mod 2 ^ 24"
proof -
  have "unat ((a + word_of_nat n * f) AND (mask 24 :: 32 word)) =
        unat (a + word_of_nat n * f) mod 2 ^ 24"
    by (simp only: take_bit_eq_mask [symmetric] unsigned_take_bit_eq) (simp add: take_bit_eq_mod)
  also have "unat (a + word_of_nat n * f) = (unat a + n * unat f) mod 2 ^ 32"
    by (simp add: unat_word_ariths mod_add_right_eq mod_mult_left_eq mod_mult_right_eq unat_of_nat)
  also have "(unat a + n * unat f) mod 2 ^ 32 mod 2 ^ 24 = (unat a + n * unat f) mod 2 ^ 24"
    by (simp add: mod_mod_cancel)
  finally show ?thesis by (simp add: mask24)
qed

text \<open>
  The loop of the delta clock returns whenever it is entered with a non-zero shift
  period, and all it does is clock the shift register some number of times.
\<close>

lemma shift_loop_total:
  "shift_period \<noteq> 0 \<Longrightarrow>
   \<exists>n. shift_loop delta_accumulator shift_period g = Some ((clock_shift_register ^^ n) g)"
proof (induction "unat delta_accumulator" arbitrary: delta_accumulator shift_period g
       rule: less_induct)
  case less
  show ?case
  proof (cases "delta_accumulator = 0")
    case True
    then have "shift_loop delta_accumulator shift_period g = Some ((clock_shift_register ^^ 0) g)"
      by (subst shift_loop.simps) simp
    then show ?thesis by blast
  next
    case nz: False
    have last: "\<exists>n. shift_loop 0 delta_accumulator (clock_shift_register g)
                  = Some ((clock_shift_register ^^ n) g)"
    proof -
      have "shift_loop 0 delta_accumulator (clock_shift_register g)
            = Some ((clock_shift_register ^^ Suc 0) g)"
        by (subst shift_loop.simps) simp
      then show ?thesis by blast
    qed
    show ?thesis
    proof (cases "delta_accumulator < shift_period")
      case True
      show ?thesis
        using nz True last
        by (subst shift_loop.simps) (auto intro: exI [of _ 0])
    next
      case False
      then have le: "shift_period \<le> delta_accumulator" by simp
      have "0 < unat shift_period"
        using less.prems by (simp add: unat_gt_0)
      moreover have "unat shift_period \<le> unat delta_accumulator"
        using le by (simp add: word_le_nat_alt)
      moreover have "unat (delta_accumulator - shift_period)
                     = unat delta_accumulator - unat shift_period"
        using le by (simp add: unat_sub)
      ultimately have "unat (delta_accumulator - shift_period) < unat delta_accumulator"
        by arith
      from less.hyps [OF this less.prems, of "clock_shift_register g"]
      obtain n where "shift_loop (delta_accumulator - shift_period) shift_period
                        (clock_shift_register g)
                      = Some ((clock_shift_register ^^ n) (clock_shift_register g))"
        by blast
      then have "shift_loop delta_accumulator shift_period g
                 = Some ((clock_shift_register ^^ Suc n) g)"
        using nz False by (subst shift_loop.simps) (simp add: funpow_swap1)
      then show ?thesis by blast
    qed
  qed
qed

lemma clock_shift_register_pow_accumulator:
  "accumulator ((clock_shift_register ^^ n) g) = accumulator g"
  by (induction n) (simp_all add: shift_register_defs)

lemma clock_delta_running:
  assumes "test g = 0"
  shows "\<exists>n m p. clock_delta delta_t g =
           Some (((clock_shift_register ^^ n)
                    (g\<lparr>accumulator := (accumulator g + delta_t * freq g) AND 0xffffff,
                       msb_rising := m\<rparr>))
                  \<lparr>pulse_output := p\<rparr>)"
proof -
  define m where "m = ((NOT (accumulator g) AND ((accumulator g + delta_t * freq g) AND 0xffffff))
                        AND 0x800000 \<noteq> 0)"
  define g1 where "g1 = g\<lparr>accumulator := (accumulator g + delta_t * freq g) AND 0xffffff,
                          msb_rising := m\<rparr>"
  have unfold: "clock_delta delta_t g =
                  (case shift_loop (delta_t * freq g) 0x100000 g1 of
                     None \<Rightarrow> None
                   | Some g2 \<Rightarrow>
                       Some (g2\<lparr>pulse_output :=
                              (if drop_bit 12 (accumulator g2) \<ge> pw g2 then 0xfff else 0x000)\<rparr>))"
    using assms unfolding g1_def m_def clock_delta_def Let_def by simp
  obtain n where n: "shift_loop (delta_t * freq g) 0x100000 g1
                     = Some ((clock_shift_register ^^ n) g1)"
    using shift_loop_total [of "0x100000" "delta_t * freq g" g1] by auto
  have "clock_delta delta_t g =
          Some (((clock_shift_register ^^ n) g1)
                 \<lparr>pulse_output :=
                    (if drop_bit 12 (accumulator ((clock_shift_register ^^ n) g1))
                          \<ge> pw ((clock_shift_register ^^ n) g1)
                     then 0xfff else 0x000)\<rparr>)"
    by (simp only: unfold n option.case)
  then show ?thesis
    unfolding g1_def by blast
qed

section \<open>What each operation leaves unchanged\<close>

lemma clock_frozen_no_reset:
  "test g \<noteq> 0 \<Longrightarrow> shift_register_reset g \<noteq> 1 \<Longrightarrow>
   clock g = g\<lparr>shift_register_reset :=
                (if shift_register_reset g = 0 then 0 else shift_register_reset g - 1),
              pulse_output := 0xfff\<rparr>"
  by (simp add: clock_def shift_register_defs)

lemma clock_frozen_reset:
  "test g \<noteq> 0 \<Longrightarrow> shift_register_reset g = 1 \<Longrightarrow>
   clock g = g\<lparr>shift_register := 0x7fffff, shift_register_reset := 0,
              noise_output := 0xff0, no_noise_or_noise_output := no_noise g OR 0xff0,
              pulse_output := 0xfff\<rparr>"
  by (simp add: clock_def shift_register_defs)

lemma clock_frozen:
  "test g \<noteq> 0 \<Longrightarrow>
   clock g = g\<lparr>shift_register := shift_register (clock g),
              shift_register_reset := shift_register_reset (clock g),
              noise_output := noise_output (clock g),
              no_noise_or_noise_output := no_noise_or_noise_output (clock g),
              pulse_output := 0xfff\<rparr>"
  by (cases "shift_register_reset g = 1") (simp_all add: clock_frozen_reset clock_frozen_no_reset)

lemma write_shift_register_frame [simp]:
  "test (write_shift_register g) = test g"
  "msb_rising (write_shift_register g) = msb_rising g"
  "sync (write_shift_register g) = sync g"
  "sync_source (write_shift_register g) = sync_source g"
  "sync_dest (write_shift_register g) = sync_dest g"
  "pw (write_shift_register g) = pw g"
  "waveform (write_shift_register g) = waveform g"
  "accumulator (write_shift_register g) = accumulator g"
  "waveform_output (write_shift_register g) = waveform_output g"
  "osc3 (write_shift_register g) = osc3 g"
  "floating_output_ttl (write_shift_register g) = floating_output_ttl g"
  by (simp_all add: write_shift_register_def Let_def)

lemma select_output_frame [simp]:
  "test (select_output ix g) = test g"
  "msb_rising (select_output ix g) = msb_rising g"
  "sync (select_output ix g) = sync g"
  "sync_source (select_output ix g) = sync_source g"
  "sync_dest (select_output ix g) = sync_dest g"
  "pw (select_output ix g) = pw g"
  "waveform (select_output ix g) = waveform g"
  "accumulator (select_output ix g) = accumulator g"
  "shift_register (select_output ix g) = shift_register g"
  by (simp_all add: select_output_def Let_def)

lemma latch_osc3_frame [simp]:
  "test (latch_osc3 ix g) = test g"
  "msb_rising (latch_osc3 ix g) = msb_rising g"
  "sync (latch_osc3 ix g) = sync g"
  "sync_source (latch_osc3 ix g) = sync_source g"
  "sync_dest (latch_osc3 ix g) = sync_dest g"
  "pw (latch_osc3 ix g) = pw g"
  "waveform (latch_osc3 ix g) = waveform g"
  "accumulator (latch_osc3 ix g) = accumulator g"
  "shift_register (latch_osc3 ix g) = shift_register g"
  "waveform_output (latch_osc3 ix g) = waveform_output g"
  by (simp_all add: latch_osc3_def)

lemma drive_msb_frame [simp]:
  "test (drive_msb g) = test g"
  "msb_rising (drive_msb g) = msb_rising g"
  "sync (drive_msb g) = sync g"
  "sync_source (drive_msb g) = sync_source g"
  "sync_dest (drive_msb g) = sync_dest g"
  "pw (drive_msb g) = pw g"
  "waveform (drive_msb g) = waveform g"
  "shift_register (drive_msb g) = shift_register g"
  "waveform_output (drive_msb g) = waveform_output g"
  by (simp_all add: drive_msb_def)

lemma write_back_frame [simp]:
  "test (write_back g) = test g"
  "msb_rising (write_back g) = msb_rising g"
  "sync (write_back g) = sync g"
  "sync_source (write_back g) = sync_source g"
  "sync_dest (write_back g) = sync_dest g"
  "pw (write_back g) = pw g"
  "waveform (write_back g) = waveform g"
  "accumulator (write_back g) = accumulator g"
  "waveform_output (write_back g) = waveform_output g"
  by (simp_all add: write_back_def)

lemma age_floating_output_frame [simp]:
  "test (age_floating_output g) = test g"
  "msb_rising (age_floating_output g) = msb_rising g"
  "sync (age_floating_output g) = sync g"
  "sync_source (age_floating_output g) = sync_source g"
  "sync_dest (age_floating_output g) = sync_dest g"
  "pw (age_floating_output g) = pw g"
  "waveform (age_floating_output g) = waveform g"
  "accumulator (age_floating_output g) = accumulator g"
  "shift_register (age_floating_output g) = shift_register g"
  by (simp_all add: age_floating_output_def Let_def)

lemma push_pulse_level_frame [simp]:
  "test (push_pulse_level g) = test g"
  "msb_rising (push_pulse_level g) = msb_rising g"
  "sync (push_pulse_level g) = sync g"
  "sync_source (push_pulse_level g) = sync_source g"
  "sync_dest (push_pulse_level g) = sync_dest g"
  "pw (push_pulse_level g) = pw g"
  "waveform (push_pulse_level g) = waveform g"
  "accumulator (push_pulse_level g) = accumulator g"
  "shift_register (push_pulse_level g) = shift_register g"
  "waveform_output (push_pulse_level g) = waveform_output g"
  "osc3 (push_pulse_level g) = osc3 g"
  "floating_output_ttl (push_pulse_level g) = floating_output_ttl g"
  "pulse_output (push_pulse_level g) = pulse_level g"
  by (simp_all add: push_pulse_level_def)

lemma pulse_level_push [simp]: "pulse_level (push_pulse_level g) = pulse_level g"
  by (simp add: pulse_level_def)

lemma set_waveform_output_with_cases:
  assumes "set_waveform_output_with a g = Some g'"
  shows "g' = push_pulse_level (write_back (drive_msb
                (latch_osc3 (wave_index a g) (select_output (wave_index a g) g))))
         \<or> g' = push_pulse_level (age_floating_output g)"
  using assms by (simp add: set_waveform_output_with_def Let_def split: if_splits)

lemma set_waveform_output_with_frame:
  assumes "set_waveform_output_with a g = Some g'"
  shows "test g' = test g" "msb_rising g' = msb_rising g" "sync g' = sync g"
    "sync_source g' = sync_source g" "sync_dest g' = sync_dest g" "pw g' = pw g"
    "waveform g' = waveform g" "pulse_output g' = pulse_level g'"
  using set_waveform_output_with_cases [OF assms] by auto

lemma drive_msb_zero: "accumulator g = 0 \<Longrightarrow> accumulator (drive_msb g) = 0"
  by (simp add: drive_msb_def)

lemma set_waveform_output_with_zero:
  assumes "set_waveform_output_with a g = Some g'" "accumulator g = 0"
  shows "accumulator g' = 0"
  using set_waveform_output_with_cases [OF assms(1)] assms(2) by (auto simp add: drive_msb_zero)

lemma clock_all_apply: "clock_all s v = clock (s v)"
  by (cases v) (simp_all add: clock_all_def clock_voice_def)

lemma synchronize_apply:
  "synchronize a s v = (s v)\<lparr>accumulator := accumulator (synchronize a s v)\<rparr>"
  by (simp add: synchronize_def Let_def)

lemma synchronize_accumulator:
  "accumulator (synchronize a s v) = accumulator (s v) \<or> accumulator (synchronize a s v) = 0"
  by (simp add: synchronize_def Let_def)

lemma synchronize_all_apply:
  "synchronize_all s v = (s v)\<lparr>accumulator := accumulator (synchronize_all s v)\<rparr>"
  unfolding synchronize_all_def
  apply (subst synchronize_apply)
  apply (subst synchronize_apply [of V1])
  apply (subst synchronize_apply [of V0])
  apply simp
  done

lemma synchronize_all_accumulator:
  "accumulator (synchronize_all s v) = accumulator (s v) \<or> accumulator (synchronize_all s v) = 0"
  unfolding synchronize_all_def
  using synchronize_accumulator [of V2 "synchronize V1 (synchronize V0 s)" v]
    synchronize_accumulator [of V1 "synchronize V0 s" v]
    synchronize_accumulator [of V0 s v]
  by auto

lemma set_waveform_output_apply:
  assumes "set_waveform_output u s = Some s'"
  shows "v \<noteq> u \<Longrightarrow> s' v = s v"
    and "\<exists>a. set_waveform_output_with a (s u) = Some (s' u)"
  using assms by (auto simp add: set_waveform_output_def split: option.splits)

lemma set_waveform_output_all_apply:
  assumes "set_waveform_output_all s = Some s'"
  shows "\<exists>a. set_waveform_output_with a (s v) = Some (s' v)"
proof -
  from assms obtain s1 s2 where
    1: "set_waveform_output V0 s = Some s1" and
    2: "set_waveform_output V1 s1 = Some s2" and
    3: "set_waveform_output V2 s2 = Some s'"
    by (auto simp add: set_waveform_output_all_def split: option.splits)
  show ?thesis
  proof (cases v)
    case V0
    then show ?thesis
      using set_waveform_output_apply [OF 1] set_waveform_output_apply(1) [OF 2, of V0]
        set_waveform_output_apply(1) [OF 3, of V0] by simp
  next
    case V1
    then show ?thesis
      using set_waveform_output_apply(1) [OF 1, of V1] set_waveform_output_apply [OF 2]
        set_waveform_output_apply(1) [OF 3, of V1] by simp
  next
    case V2
    then show ?thesis
      using set_waveform_output_apply(1) [OF 1, of V2] set_waveform_output_apply(1) [OF 2, of V2]
        set_waveform_output_apply [OF 3] by simp
  qed
qed

lemma sample_cycle_apply:
  assumes "sample_cycle s = Some s'"
  shows "\<exists>a c. set_waveform_output_with a ((clock (s v))\<lparr>accumulator := c\<rparr>) = Some (s' v)
               \<and> (c = accumulator (clock (s v)) \<or> c = 0)"
proof -
  from assms obtain a where
    a: "set_waveform_output_with a (synchronize_all (clock_all s) v) = Some (s' v)"
    unfolding sample_cycle_def using set_waveform_output_all_apply by blast
  have "synchronize_all (clock_all s) v =
          (clock (s v))\<lparr>accumulator := accumulator (synchronize_all (clock_all s) v)\<rparr>"
    using synchronize_all_apply [of "clock_all s" v] by (simp add: clock_all_apply)
  moreover have "accumulator (synchronize_all (clock_all s) v) = accumulator (clock (s v))
                 \<or> accumulator (synchronize_all (clock_all s) v) = 0"
    using synchronize_all_accumulator [of "clock_all s" v] by (simp add: clock_all_apply)
  ultimately show ?thesis using a by metis
qed

lemma clock_frame [simp]:
  "test (clock g) = test g" "sync (clock g) = sync g"
  "sync_source (clock g) = sync_source g" "sync_dest (clock g) = sync_dest g"
  "freq (clock g) = freq g" "pw (clock g) = pw g" "waveform (clock g) = waveform g"
  "waveform_output (clock g) = waveform_output g"
  by (simp_all add: clock_def shift_register_defs)

lemma clock_frozen_fields:
  assumes "test g \<noteq> 0"
  shows "accumulator (clock g) = accumulator g" "msb_rising (clock g) = msb_rising g"
    "shift_pipeline (clock g) = shift_pipeline g" "pulse_output (clock g) = 0xfff"
  using assms by (simp_all add: clock_def shift_register_defs)

lemma clock_running_pulse_output:
  "test g = 0 \<Longrightarrow> pulse_output (clock g) = pulse_output g"
  by (simp add: clock_def shift_register_defs)

lemma clock_pow_frozen:
  assumes "test g \<noteq> 0"
  shows "test ((clock ^^ n) g) = test g \<and> accumulator ((clock ^^ n) g) = accumulator g
       \<and> msb_rising ((clock ^^ n) g) = msb_rising g"
  using assms by (induction n) (simp_all add: clock_frozen_fields)

lemma sample_cycle_frame:
  assumes "sample_cycle s = Some s'"
  shows "test (s' v) = test (s v)" "sync (s' v) = sync (s v)"
    "sync_source (s' v) = sync_source (s v)" "sync_dest (s' v) = sync_dest (s v)"
    "pw (s' v) = pw (s v)" "waveform (s' v) = waveform (s v)"
    "pulse_output (s' v) = pulse_level (s' v)"
    "msb_rising (s' v) = msb_rising (clock (s v))"
proof -
  from sample_cycle_apply [OF assms, of v] obtain a c where
    "set_waveform_output_with a ((clock (s v))\<lparr>accumulator := c\<rparr>) = Some (s' v)" by blast
  note f = set_waveform_output_with_frame [OF this]
  show "test (s' v) = test (s v)" "sync (s' v) = sync (s v)"
    "sync_source (s' v) = sync_source (s v)" "sync_dest (s' v) = sync_dest (s v)"
    "pw (s' v) = pw (s v)" "waveform (s' v) = waveform (s v)"
    "pulse_output (s' v) = pulse_level (s' v)"
    "msb_rising (s' v) = msb_rising (clock (s v))"
    using f by simp_all
qed

lemma sample_cycle_frozen:
  assumes "sample_cycle s = Some s'" "test (s v) \<noteq> 0"
  shows "msb_rising (s' v) = msb_rising (s v)"
    and "accumulator (s v) = 0 \<Longrightarrow> accumulator (s' v) = 0"
proof -
  show "msb_rising (s' v) = msb_rising (s v)"
    using sample_cycle_frame(8) [OF assms(1), of v] assms(2) by (simp add: clock_frozen_fields)
  from sample_cycle_apply [OF assms(1), of v] obtain a c where
    ac: "set_waveform_output_with a ((clock (s v))\<lparr>accumulator := c\<rparr>) = Some (s' v)"
      "c = accumulator (clock (s v)) \<or> c = 0" by blast
  show "accumulator (s' v) = 0" if "accumulator (s v) = 0"
  proof -
    have "c = 0" using ac(2) that assms(2) by (auto simp add: clock_frozen_fields)
    then show ?thesis using set_waveform_output_with_zero [OF ac(1)] by simp
  qed
qed

lemma sample_cycles_frozen:
  assumes "sample_cycles n s = Some s'" "test (s v) \<noteq> 0"
  shows "test (s' v) = test (s v) \<and> msb_rising (s' v) = msb_rising (s v)
         \<and> (accumulator (s v) = 0 \<longrightarrow> accumulator (s' v) = 0)"
  using assms
proof (induction n arbitrary: s)
  case 0
  then show ?case by simp
next
  case (Suc n)
  from Suc.prems(1) obtain s1 where
    1: "sample_cycle s = Some s1" and 2: "sample_cycles n s1 = Some s'"
    by (auto split: option.splits)
  have t: "test (s1 v) = test (s v)" by (rule sample_cycle_frame(1) [OF 1])
  then have "test (s1 v) \<noteq> 0" using Suc.prems(2) by simp
  from Suc.IH [OF 2 this] t sample_cycle_frozen [OF 1 Suc.prems(2)]
  show ?case by simp
qed

lemma before_output_apply:
  "pulse_output (synchronize_all (clock_all s) v) = pulse_output (clock (s v))"
  "test (synchronize_all (clock_all s) v) = test (s v)"
proof -
  have e: "synchronize_all (clock_all s) v =
        (clock (s v))\<lparr>accumulator := accumulator (synchronize_all (clock_all s) v)\<rparr>"
    using synchronize_all_apply [of "clock_all s" v] by (simp add: clock_all_apply)
  show "pulse_output (synchronize_all (clock_all s) v) = pulse_output (clock (s v))"
    by (subst e) simp
  show "test (synchronize_all (clock_all s) v) = test (s v)"
    by (subst e) simp
qed

section \<open>Register widths\<close>

lemma and_lt: "(x::32 word) < n \<Longrightarrow> x AND y < n"
  using word_and_le2 [of x y] by (rule le_less_trans)

lemma and_mask_lt24: "(x::32 word) AND 0xffffff < 0x1000000"
  using word_and_le1 [of x "0xffffff"] by (rule le_less_trans) simp

lemma and_mask_lt23: "(x::32 word) AND 0x7fffff < 0x800000"
  using word_and_le1 [of x "0x7fffff"] by (rule le_less_trans) simp

lemma range_clock_shift_register: "accumulator g < 0x1000000 \<Longrightarrow> registers_in_range (clock_shift_register g)"
  by (simp add: registers_in_range_def clock_shift_register_def set_noise_output_def Let_def and_mask_lt23)

lemma range_reset_shift_register: "accumulator g < 0x1000000 \<Longrightarrow> registers_in_range (reset_shift_register g)"
  by (simp add: registers_in_range_def reset_shift_register_def set_noise_output_def Let_def)

lemma range_write_shift_register: "registers_in_range g \<Longrightarrow> registers_in_range (write_shift_register g)"
  by (simp add: registers_in_range_def write_shift_register_def Let_def and_lt)

lemma range_update [simp]:
  "registers_in_range (g\<lparr>pulse_output := p\<rparr>) = registers_in_range g"
  "registers_in_range (g\<lparr>msb_rising := m\<rparr>) = registers_in_range g"
  "registers_in_range (g\<lparr>shift_pipeline := c\<rparr>) = registers_in_range g"
  "registers_in_range (g\<lparr>shift_register_reset := c\<rparr>) = registers_in_range g"
  "registers_in_range (g\<lparr>waveform_output := w\<rparr>) = registers_in_range g"
  "registers_in_range (g\<lparr>osc3 := w\<rparr>) = registers_in_range g"
  "registers_in_range (g\<lparr>tri_saw_pipeline := w\<rparr>) = registers_in_range g"
  "registers_in_range (g\<lparr>floating_output_ttl := c\<rparr>) = registers_in_range g"
  by (simp_all add: registers_in_range_def)

lemma range_accumulator_update:
  "registers_in_range g \<Longrightarrow> a < 0x1000000 \<Longrightarrow> registers_in_range (g\<lparr>accumulator := a\<rparr>)"
  by (simp add: registers_in_range_def)

lemma range_clock:
  assumes "registers_in_range g"
  shows "registers_in_range (clock g)"
proof (cases "test g = 0")
  case True
  let ?g1 = "g\<lparr>accumulator := (accumulator g + freq g) AND 0xffffff\<rparr>"
  have r1: "registers_in_range ?g1"
    using assms by (simp add: range_accumulator_update and_mask_lt24)
  then have "accumulator ?g1 < 0x1000000" by (simp add: registers_in_range_def)
  then have r2: "registers_in_range (clock_shift_register (?g1\<lparr>msb_rising := m, shift_pipeline := c\<rparr>))" for m c
    by (intro range_clock_shift_register) simp
  show ?thesis
    using True r1 r2 unfolding clock_def Let_def
    by (simp del: range_update(2,3)) (simp add: registers_in_range_def)
next
  case False
  show ?thesis
  proof (cases "shift_register_reset g = 1")
    case True
    with False assms show ?thesis
      by (simp add: clock_frozen_reset registers_in_range_def)
  next
    case f: False
    with False assms show ?thesis
      by (simp add: clock_frozen_no_reset)
  qed
qed

lemma range_clock_shift_register_pow:
  "registers_in_range g \<Longrightarrow> registers_in_range ((clock_shift_register ^^ n) g)"
proof (induction n)
  case 0
  then show ?case by simp
next
  case (Suc n)
  then have "accumulator ((clock_shift_register ^^ n) g) < 0x1000000"
    by (simp add: registers_in_range_def)
  then show ?case by (simp add: range_clock_shift_register)
qed

lemma clock_delta_frozen:
  "test g \<noteq> 0 \<Longrightarrow>
   \<exists>c. clock_delta delta_t g = Some (g\<lparr>shift_register_reset := c, pulse_output := 0xfff\<rparr>)
     \<or> clock_delta delta_t g = Some ((reset_shift_register (g\<lparr>shift_register_reset := c\<rparr>))\<lparr>pulse_output := 0xfff\<rparr>)"
  by (auto simp add: clock_delta_def Let_def intro: exI [of _ "shift_register_reset g"])

lemma range_clock_delta:
  assumes "registers_in_range g"
  shows "\<exists>g'. clock_delta delta_t g = Some g' \<and> registers_in_range g'"
proof (cases "test g = 0")
  case True
  from clock_delta_running [OF True, of delta_t] obtain n m p where
    e: "clock_delta delta_t g =
           Some (((clock_shift_register ^^ n)
                    (g\<lparr>accumulator := (accumulator g + delta_t * freq g) AND 0xffffff,
                       msb_rising := m\<rparr>))
                  \<lparr>pulse_output := p\<rparr>)" by blast
  have "registers_in_range (g\<lparr>accumulator := (accumulator g + delta_t * freq g) AND 0xffffff,
                       msb_rising := m\<rparr>)"
    using assms by (simp add: range_accumulator_update and_mask_lt24)
  then show ?thesis
    unfolding e by (simp add: range_clock_shift_register_pow del: funpow.simps)
next
  case False
  from clock_delta_frozen [OF False, of delta_t] obtain c where
    "clock_delta delta_t g = Some (g\<lparr>shift_register_reset := c, pulse_output := 0xfff\<rparr>)
     \<or> clock_delta delta_t g = Some ((reset_shift_register (g\<lparr>shift_register_reset := c\<rparr>))\<lparr>pulse_output := 0xfff\<rparr>)"
    by blast
  moreover have "registers_in_range (reset_shift_register (g\<lparr>shift_register_reset := c\<rparr>))"
    using assms by (intro range_reset_shift_register) (simp add: registers_in_range_def)
  ultimately show ?thesis using assms by auto
qed

lemma range_blocks:
  "registers_in_range (select_output ix g) = registers_in_range g"
  "registers_in_range (latch_osc3 ix g) = registers_in_range g"
  "registers_in_range (push_pulse_level g) = registers_in_range g"
  "registers_in_range (age_floating_output g) = registers_in_range g"
  "registers_in_range (select_output_delta ix g) = registers_in_range g"
  "registers_in_range (age_floating_output_delta d g) = registers_in_range g"
  by (simp_all add: select_output_def latch_osc3_def push_pulse_level_def
        age_floating_output_def select_output_delta_def age_floating_output_delta_def Let_def)

lemma range_drive_msb: "registers_in_range g \<Longrightarrow> registers_in_range (drive_msb g)"
  by (simp add: drive_msb_def registers_in_range_def and_lt)

lemma range_write_back: "registers_in_range g \<Longrightarrow> registers_in_range (write_back g)"
  by (simp add: write_back_def range_write_shift_register)

lemma range_write_back_delta: "registers_in_range g \<Longrightarrow> registers_in_range (write_back_delta g)"
  by (simp add: write_back_delta_def range_write_shift_register)

lemma range_set_waveform_output_with:
  assumes "registers_in_range g" "set_waveform_output_with a g = Some g'"
  shows "registers_in_range g'"
  using assms
  by (auto simp add: set_waveform_output_with_def Let_def range_blocks range_drive_msb
        range_write_back split: if_splits)

lemma range_set_waveform_output_delta_with:
  assumes "registers_in_range g" "set_waveform_output_delta_with a d g = Some g'"
  shows "registers_in_range g'"
  using assms
  by (auto simp add: set_waveform_output_delta_with_def Let_def range_blocks range_drive_msb
        range_write_back_delta split: if_splits)

lemma range_synchronize:
  assumes "\<forall>u. registers_in_range (s u)"
  shows "registers_in_range (synchronize a s v)"
  using assms by (simp add: synchronize_def Let_def registers_in_range_def)

lemma range_set_waveform_output:
  assumes "\<forall>u. registers_in_range (s u)" "set_waveform_output a s = Some s'"
  shows "registers_in_range (s' v)"
proof -
  from assms(2) obtain g' where
    g': "set_waveform_output_with (accumulator (s (sync_source (s a)))) (s a) = Some g'"
    and s': "s' = s(a := g')"
    by (auto simp add: set_waveform_output_def split: option.splits)
  have "registers_in_range g'"
    using assms(1) g' by (blast intro: range_set_waveform_output_with)
  then show ?thesis using assms(1) s' by simp
qed

lemma range_set_waveform_output_delta:
  assumes "\<forall>u. registers_in_range (s u)" "set_waveform_output_delta a d s = Some s'"
  shows "registers_in_range (s' v)"
proof -
  from assms(2) obtain g' where
    g': "set_waveform_output_delta_with (accumulator (s (sync_source (s a)))) d (s a) = Some g'"
    and s': "s' = s(a := g')"
    by (auto simp add: set_waveform_output_delta_def split: option.splits)
  have "registers_in_range g'"
    using assms(1) g' by (blast intro: range_set_waveform_output_delta_with)
  then show ?thesis using assms(1) s' by simp
qed

section \<open>Floating output\<close>

lemma floating_step:
  "waveform g = 0 \<Longrightarrow>
   set_waveform_output_with a g = Some (push_pulse_level (age_floating_output g))"
  by (simp add: set_waveform_output_with_def)

lemma age_floating_output_hold:
  "floating_output_ttl g \<noteq> 0 \<Longrightarrow> floating_output_ttl g \<noteq> 1 \<Longrightarrow>
   age_floating_output g = g\<lparr>floating_output_ttl := floating_output_ttl g - 1\<rparr>"
  by (simp add: age_floating_output_def Let_def)

lemma age_floating_output_last:
  "floating_output_ttl g = 1 \<Longrightarrow>
   age_floating_output g = g\<lparr>floating_output_ttl := 0, waveform_output := 0, osc3 := 0\<rparr>"
  by (simp add: age_floating_output_def Let_def)

lemma set_waveform_outputs_append:
  "set_waveform_outputs (as @ bs) g =
     (case set_waveform_outputs as g of None \<Rightarrow> None | Some g' \<Rightarrow> set_waveform_outputs bs g')"
  by (induction as arbitrary: g) (simp_all split: option.splits)

lemma floating_hold:
  "waveform g = 0 \<Longrightarrow> length as < unat (floating_output_ttl g) \<Longrightarrow>
   \<exists>g'. set_waveform_outputs as g = Some g' \<and> waveform g' = 0
      \<and> floating_output_ttl g' = floating_output_ttl g - word_of_nat (length as)
      \<and> waveform_output g' = waveform_output g \<and> osc3 g' = osc3 g"
proof (induction as arbitrary: g)
  case Nil
  then show ?case by simp
next
  case (Cons a as)
  let ?t = "floating_output_ttl g"
  have big: "2 \<le> unat ?t" using Cons.prems(2) by simp
  have nz: "?t \<noteq> 0" using big by (auto simp add: unat_eq_zero [symmetric])
  have n1: "?t \<noteq> 1" using big by auto
  let ?g1 = "push_pulse_level (g\<lparr>floating_output_ttl := ?t - 1\<rparr>)"
  have step: "set_waveform_output_with a g = Some ?g1"
    using Cons.prems(1) nz n1 by (simp add: floating_step age_floating_output_hold)
  have u: "unat (?t - 1) = unat ?t - 1" using nz by (simp add: unat_minus_one)
  have "waveform ?g1 = 0" using Cons.prems(1) by simp
  moreover have "length as < unat (floating_output_ttl ?g1)"
    using Cons.prems(2) u by simp
  ultimately obtain g' where
    "set_waveform_outputs as ?g1 = Some g'" "waveform g' = 0"
    "floating_output_ttl g' = floating_output_ttl ?g1 - word_of_nat (length as)"
    "waveform_output g' = waveform_output ?g1" "osc3 g' = osc3 ?g1"
    using Cons.IH [of ?g1] by blast
  then show ?case using step by simp
qed

lemma floating_zero:
  assumes "waveform g = 0" "length as = unat (floating_output_ttl g)" "floating_output_ttl g \<noteq> 0"
  shows "\<exists>g'. set_waveform_outputs as g = Some g' \<and> waveform_output g' = 0 \<and> osc3 g' = 0
            \<and> floating_output_ttl g' = 0"
proof -
  let ?t = "floating_output_ttl g"
  have pos: "0 < unat ?t" using assms(3) by (simp add: unat_gt_0)
  then have "as \<noteq> []" using assms(2) by auto
  then obtain bs a where as: "as = bs @ [a]" by (metis rev_exhaust)
  have len: "length bs = unat ?t - 1" using as assms(2) by simp
  then have "length bs < unat ?t" using pos by simp
  from floating_hold [OF assms(1) this] obtain g1 where
    g1: "set_waveform_outputs bs g = Some g1" "waveform g1 = 0"
      "floating_output_ttl g1 = ?t - word_of_nat (length bs)" by blast
  have "word_of_nat (length bs) = ?t - 1"
    using len assms(3) by (metis of_nat_unat ucast_id unat_minus_one)
  then have one: "floating_output_ttl g1 = 1" using g1(3) by simp
  have "set_waveform_output_with a g1 =
          Some (push_pulse_level (g1\<lparr>floating_output_ttl := 0, waveform_output := 0, osc3 := 0\<rparr>))"
    using g1(2) one by (simp add: floating_step age_floating_output_last)
  then show ?thesis
    unfolding as set_waveform_outputs_append using g1(1) by simp
qed

lemma age_floating_output_values:
  "(waveform_output (age_floating_output g) = waveform_output g \<or> waveform_output (age_floating_output g) = 0)
   \<and> (osc3 (age_floating_output g) = osc3 g \<or> osc3 (age_floating_output g) = 0)"
  by (simp add: age_floating_output_def Let_def)

lemma floating_values:
  "waveform g = 0 \<Longrightarrow>
   \<exists>g'. set_waveform_outputs as g = Some g' \<and> waveform g' = 0
      \<and> (waveform_output g' = waveform_output g \<or> waveform_output g' = 0)
      \<and> (osc3 g' = osc3 g \<or> osc3 g' = 0)"
proof (induction as arbitrary: g)
  case Nil
  then show ?case by simp
next
  case (Cons a as)
  let ?g1 = "push_pulse_level (age_floating_output g)"
  have step: "set_waveform_output_with a g = Some ?g1"
    using Cons.prems by (rule floating_step)
  have "waveform ?g1 = 0" using Cons.prems by simp
  from Cons.IH [OF this] obtain g' where
    "set_waveform_outputs as ?g1 = Some g'" "waveform g' = 0"
    "waveform_output g' = waveform_output ?g1 \<or> waveform_output g' = 0"
    "osc3 g' = osc3 ?g1 \<or> osc3 g' = 0" by blast
  then show ?case
    using step age_floating_output_values [of g] by auto
qed

lemma floating_monotone:
  assumes "waveform g = 0"
  shows "\<exists>g1 g2. set_waveform_outputs as g = Some g1 \<and> set_waveform_outputs (as @ bs) g = Some g2
            \<and> waveform_output g2 \<le> waveform_output g1 \<and> osc3 g2 \<le> osc3 g1"
proof -
  from floating_values [OF assms, of as] obtain g1 where
    g1: "set_waveform_outputs as g = Some g1" "waveform g1 = 0" by blast
  from floating_values [OF g1(2), of bs] obtain g2 where
    g2: "set_waveform_outputs bs g1 = Some g2"
      "waveform_output g2 = waveform_output g1 \<or> waveform_output g2 = 0"
      "osc3 g2 = osc3 g1 \<or> osc3 g2 = 0" by blast
  have "set_waveform_outputs (as @ bs) g = Some g2"
    using g1(1) g2(1) by (simp add: set_waveform_outputs_append)
  moreover have "waveform_output g2 \<le> waveform_output g1" using g2(2) by auto
  moreover have "osc3 g2 \<le> osc3 g1" using g2(3) by auto
  ultimately show ?thesis using g1(1) by blast
qed

lemma sint_positive_uint: "0 < sint (w :: 32 word) \<Longrightarrow> sint w = uint w"
proof -
  assume p: "0 < sint w"
  have u: "uint w < 2 ^ 32" using uint_lt2p [of w] by simp
  have s: "sint w = signed_take_bit 31 (uint w)" by (simp add: sint_uint)
  show ?thesis
  proof (cases "uint w < 2 ^ 31")
    case True
    have "- (2 ^ 31) \<le> (0::int)" by simp
    then have "- (2 ^ 31) \<le> uint w" using uint_ge_0 [of w] by (rule order_trans)
    then show ?thesis unfolding s using True by (rule signed_take_bit_int_eq_self)
  next
    case False
    then have "(2::int) ^ 31 \<le> uint w" by simp
    then have "signed_take_bit 31 (uint w) \<le> uint w - 2 ^ Suc 31"
      by (rule signed_take_bit_int_less_eq)
    moreover have "(2::int) ^ Suc 31 = 2 ^ 32" by simp
    ultimately have "signed_take_bit 31 (uint w) < 0" using u by linarith
    then show ?thesis using p unfolding s by linarith
  qed
qed

lemma positive_count: "0 < sint (w :: 32 word) \<Longrightarrow> nat (sint w) = unat w \<and> w \<noteq> 0"
proof -
  assume p: "0 < sint w"
  then have e: "sint w = uint w" by (rule sint_positive_uint)
  have "nat (sint w) = unat w" by (simp only: e unat_eq_nat_uint)
  moreover have "w \<noteq> 0" using p by auto
  ultimately show ?thesis by simp
qed

lemma sint_diff_positive:
  assumes "0 < sint (t :: 32 word)" "0 < sint (d :: 32 word)"
  shows "sint (t - d) = sint t - sint d"
proof -
  have "sint t < 2 ^ 31" "sint d < 2 ^ 31"
    using sint_lt [of t] sint_lt [of d] by simp_all
  then have "- (2 ^ 31) \<le> sint t - sint d" "sint t - sint d < 2 ^ 31"
    using assms by simp_all
  then have "signed_take_bit 31 (sint t - sint d) = sint t - sint d"
    by (rule signed_take_bit_int_eq_self)
  then show ?thesis
    by (simp add: sint_word_ariths)
qed
lemma floating_delta:
  assumes "waveform g = 0" "0 < sint (floating_output_ttl g)" "0 < sint d"
  shows "\<exists>g'. set_waveform_output_delta_with a d g = Some g' \<and>
           (if sint d < sint (floating_output_ttl g)
            then waveform_output g' = waveform_output g \<and> osc3 g' = osc3 g
                 \<and> floating_output_ttl g' = floating_output_ttl g - d
            else waveform_output g' = 0 \<and> osc3 g' = 0 \<and> floating_output_ttl g' = 0)"
proof -
  have nz: "floating_output_ttl g \<noteq> 0" using positive_count [OF assms(2)] by simp
  show ?thesis
    using assms(1) nz sint_diff_positive [OF assms(2,3)]
    by (simp add: set_waveform_output_delta_with_def age_floating_output_delta_def Let_def)
qed

section \<open>Upper twelve bits\<close>

lemma in_range_bit:
  assumes "(x :: 32 word) < 0x1000000"
  shows "bit x n = (n < 24 \<and> bit x n)"
proof -
  have "x < 2 ^ 24" using assms by simp
  then have "take_bit 24 x = x" by (simp add: take_bit_eq_mask less_mask_eq)
  then show ?thesis using bit_take_bit_iff [of 24 x n] by simp
qed

lemma upper12_lt:
  assumes "(x :: 32 word) < 0x1000000"
  shows "unat (drop_bit 12 x) < 4096"
proof -
  have hi: "bit x (12 + n) \<Longrightarrow> n < 12" for n
    using in_range_bit [OF assms, of "12 + n"] by simp
  have "drop_bit 12 x AND mask 12 = drop_bit 12 x"
    by (rule bit_word_eqI) (auto simp add: bit_simps dest: hi)
  then have "drop_bit 12 x < 2 ^ 12"
    by (simp add: mask_eq_iff_w2p word_size)
  then show ?thesis by (simp add: word_less_nat_alt)
qed

lemma saw_masks:
  assumes "(x :: 32 word) < 0x1000000"
  shows "(ucast ((word_of_nat (unat (drop_bit 12 x)) :: 16 word) AND (0xfff OR p) AND 0xfff) :: 32 word)
         = drop_bit 12 x"
proof -
  have m: "(0xfff :: 16 word) = mask 12" by (simp add: mask_eq_exp_minus_1)
  have hi: "bit x (12 + n) \<Longrightarrow> n < 12" for n
    using in_range_bit [OF assms, of "12 + n"] by simp
  show ?thesis
    unfolding m
    apply (rule bit_word_eqI)
    apply (auto simp add: bit_simps dest: hi)
    done
qed

section \<open>The table reads stay inside the table\<close>

lemma in_range_from_bits:
  assumes "\<And>n. bit (x :: 32 word) n \<Longrightarrow> n < 24"
  shows "x < 0x1000000"
proof -
  have "x AND mask 24 = x"
    by (rule bit_word_eqI) (auto simp add: bit_simps dest: assms)
  then have "x < 2 ^ 24"
    by (simp add: mask_eq_iff_w2p word_size)
  then show ?thesis by simp
qed

lemma wave_index_lt:
  assumes "accumulator g < 0x1000000" "ring_msb_mask g < 0x1000000"
  shows "wave_index a g < 4096"
proof -
  have "accumulator g XOR (NOT a AND ring_msb_mask g) < 0x1000000"
  proof (rule in_range_from_bits)
    fix n
    assume "bit (accumulator g XOR (NOT a AND ring_msb_mask g)) n"
    then have "bit (accumulator g) n \<or> bit (ring_msb_mask g) n"
      by (auto simp add: bit_simps)
    then show "n < 24"
      using in_range_bit [OF assms(1), of n] in_range_bit [OF assms(2), of n] by auto
  qed
  then show ?thesis unfolding wave_index_def by (rule upper12_lt)
qed

lemma set_waveform_output_with_total:
  assumes "accumulator g < 0x1000000" "ring_msb_mask g < 0x1000000"
  shows "\<exists>g'. set_waveform_output_with a g = Some g'"
  using wave_index_lt [OF assms, of a] by (simp add: set_waveform_output_with_def Let_def)

lemma ring_msb_mask_frame [simp]:
  "ring_msb_mask (clock g) = ring_msb_mask g"
  "ring_msb_mask (select_output ix g) = ring_msb_mask g"
  "ring_msb_mask (latch_osc3 ix g) = ring_msb_mask g"
  "ring_msb_mask (drive_msb g) = ring_msb_mask g"
  "ring_msb_mask (write_back g) = ring_msb_mask g"
  "ring_msb_mask (age_floating_output g) = ring_msb_mask g"
  "ring_msb_mask (push_pulse_level g) = ring_msb_mask g"
  by (simp_all add: clock_def shift_register_defs select_output_def latch_osc3_def drive_msb_def
        write_back_def age_floating_output_def push_pulse_level_def)

lemma set_waveform_output_with_mask:
  assumes "set_waveform_output_with a g = Some g'"
  shows "ring_msb_mask g' = ring_msb_mask g"
  using set_waveform_output_with_cases [OF assms] by auto

lemma tables_clock_voice:
  "tables_in_reach s \<Longrightarrow> tables_in_reach (clock_voice v s)"
  by (simp add: tables_in_reach_def clock_voice_def range_clock)

lemma tables_synchronize:
  "tables_in_reach s \<Longrightarrow> tables_in_reach (synchronize v s)"
  by (simp add: tables_in_reach_def synchronize_def Let_def registers_in_range_def)

lemma tables_set_waveform_output:
  assumes "tables_in_reach s"
  shows "\<exists>s'. set_waveform_output v s = Some s' \<and> tables_in_reach s'"
proof -
  have r: "registers_in_range (s v)" "ring_msb_mask (s v) < 0x1000000"
    using assms by (simp_all add: tables_in_reach_def)
  then have "accumulator (s v) < 0x1000000" by (simp add: registers_in_range_def)
  from set_waveform_output_with_total [OF this r(2)] obtain g' where
    g': "set_waveform_output_with (accumulator (s (sync_source (s v)))) (s v) = Some g'"
    by blast
  have "registers_in_range g'" "ring_msb_mask g' < 0x1000000"
    using range_set_waveform_output_with [OF r(1) g'] set_waveform_output_with_mask [OF g'] r(2)
    by simp_all
  then have "tables_in_reach (s(v := g'))"
    using assms by (simp add: tables_in_reach_def)
  then show ?thesis using g' by (simp add: set_waveform_output_def)
qed

lemma sample_cycle_total:
  assumes "tables_in_reach s"
  shows "\<exists>s'. sample_cycle s = Some s' \<and> tables_in_reach s'"
proof -
  have "tables_in_reach (synchronize_all (clock_all s))"
    using assms
    by (simp add: synchronize_all_def clock_all_def tables_clock_voice tables_synchronize)
  from tables_set_waveform_output [OF this, of V0] obtain s1 where
    1: "set_waveform_output V0 (synchronize_all (clock_all s)) = Some s1" "tables_in_reach s1"
    by blast
  from tables_set_waveform_output [OF 1(2), of V1] obtain s2 where
    2: "set_waveform_output V1 s1 = Some s2" "tables_in_reach s2" by blast
  from tables_set_waveform_output [OF 2(2), of V2] obtain s3 where
    3: "set_waveform_output V2 s2 = Some s3" "tables_in_reach s3" by blast
  show ?thesis
    using 1 2 3 by (simp add: sample_cycle_def set_waveform_output_all_def)
qed

lemma sample_cycles_total:
  "tables_in_reach s \<Longrightarrow> \<exists>s'. sample_cycles n s = Some s' \<and> tables_in_reach s'"
proof (induction n arbitrary: s)
  case 0
  then show ?case by simp
next
  case (Suc n)
  from sample_cycle_total [OF Suc.prems] obtain s1 where
    1: "sample_cycle s = Some s1" "tables_in_reach s1" by blast
  from Suc.IH [OF 1(2)] 1(1) show ?case by simp
qed

lemma idle_voices_apply:
  "idle_voices V0 = idle_generator\<lparr>sync_source := V2, sync_dest := V1\<rparr>"
  "idle_voices V1 = idle_generator\<lparr>sync_source := V0, sync_dest := V2\<rparr>"
  "idle_voices V2 = idle_generator\<lparr>sync_source := V1, sync_dest := V0\<rparr>"
  by (simp_all add: idle_voices_def link_voices_def set_sync_source_def Let_def)

section \<open>Accumulator linearity\<close>

text \<open>
  C1.  With the test bit clear, for every frequency register value, every starting
  accumulator value and every \<open>N \<ge> 1\<close>, the accumulator after \<open>N\<close> single-cycle
  clocks is \<open>(A + N * F) mod 2 ^ 24\<close>, and one delta clock of size \<open>N\<close> from the same
  state returns and leaves the same accumulator.
\<close>

theorem accumulator_linearity:
  assumes "test g = 0" and "1 \<le> N"
  shows "unat (accumulator ((clock ^^ N) g))
           = (unat (accumulator g) + N * unat (freq g)) mod 2 ^ 24
         \<and> (\<exists>g'. clock_delta (word_of_nat N) g = Some g'
                \<and> accumulator g' = accumulator ((clock ^^ N) g))"
proof -
  from assms(2) obtain n where N: "N = Suc n"
    by (cases N) simp_all
  have single: "accumulator ((clock ^^ N) g)
                = (accumulator g + word_of_nat N * freq g) AND 0xffffff"
    unfolding N using assms(1) by (rule clock_pow_accumulator)
  obtain k m p where "clock_delta (word_of_nat N) g =
      Some (((clock_shift_register ^^ k)
               (g\<lparr>accumulator := (accumulator g + word_of_nat N * freq g) AND 0xffffff,
                  msb_rising := m\<rparr>))
             \<lparr>pulse_output := p\<rparr>)"
    using clock_delta_running [OF assms(1), of "word_of_nat N"] by blast
  then have delta: "\<exists>g'. clock_delta (word_of_nat N) g = Some g'
                      \<and> accumulator g' = accumulator ((clock ^^ N) g)"
    by (simp add: single clock_shift_register_pow_accumulator)
  show ?thesis
    using delta by (simp only: single unat_and_mask24)
qed

theorem accumulator_linearity_witness:
  "test (idle_generator\<lparr>accumulator := 0xfffff0, freq := 0x1234\<rparr>) = 0 \<and> (1::nat) \<le> 5 \<and>
   unat (accumulator ((clock ^^ 5) (idle_generator\<lparr>accumulator := 0xfffff0, freq := 0x1234\<rparr>)))
     = (unat (accumulator (idle_generator\<lparr>accumulator := 0xfffff0, freq := 0x1234\<rparr>))
        + 5 * unat (freq (idle_generator\<lparr>accumulator := 0xfffff0, freq := 0x1234\<rparr>))) mod 2 ^ 24
   \<and> (\<exists>g'. clock_delta (word_of_nat 5) (idle_generator\<lparr>accumulator := 0xfffff0, freq := 0x1234\<rparr>)
              = Some g'
          \<and> accumulator g'
              = accumulator ((clock ^^ 5) (idle_generator\<lparr>accumulator := 0xfffff0, freq := 0x1234\<rparr>)))"
proof -
  have t: "test (idle_generator\<lparr>accumulator := 0xfffff0, freq := 0x1234\<rparr>) = 0"
    by (simp add: idle_generator_def)
  have n: "(1::nat) \<le> 5" by simp
  from accumulator_linearity [OF t n] t n show ?thesis by blast
qed

section \<open>Sync propagation\<close>

lemma ring_wired_link_voices: "ring_wired (link_voices s)"
  by (simp add: ring_wired_def link_voices_def set_sync_source_def Let_def)

lemma synchronize_dest:
  assumes "msb_rising (s a)" and "sync (s (sync_dest (s a))) \<noteq> 0"
  shows "accumulator (synchronize a s (sync_dest (s a))) =
           (if sync (s a) \<noteq> 0 \<and> msb_rising (s (sync_source (s a)))
            then accumulator (s (sync_dest (s a))) else 0)"
  using assms by (simp add: synchronize_def Let_def)

lemma synchronize_all_dest:
  assumes "ring_wired s" and "msb_rising (s a)" and "sync (s (sync_dest (s a))) \<noteq> 0"
  shows "accumulator (synchronize_all s (sync_dest (s a))) =
           (if sync (s a) \<noteq> 0 \<and> msb_rising (s (sync_source (s a)))
            then accumulator (s (sync_dest (s a))) else 0)"
  using assms
  by (cases a) (simp_all add: synchronize_all_def ring_wired_def synchronize_def Let_def)

text \<open>
  C2.  In the ring of the three generators, after all of them have been clocked: if
  the MSB of generator \<open>a\<close> rose and its sync destination has the sync bit set, then
  \<open>synchronize()\<close> of \<open>a\<close> leaves the destination's accumulator at exactly 0, except
  when \<open>a\<close> has its own sync bit set and the MSB of its own sync source rose too; then
  the destination's accumulator is unchanged.  The same holds for the destination
  after the whole pass in which the three generators synchronize in turn.
\<close>

theorem sync_propagation:
  assumes "ring_wired s" and "msb_rising (s a)" and "sync (s (sync_dest (s a))) \<noteq> 0"
  shows "accumulator (synchronize a s (sync_dest (s a))) =
           (if sync (s a) \<noteq> 0 \<and> msb_rising (s (sync_source (s a)))
            then accumulator (s (sync_dest (s a))) else 0)
       \<and> accumulator (synchronize_all s (sync_dest (s a))) =
           (if sync (s a) \<noteq> 0 \<and> msb_rising (s (sync_source (s a)))
            then accumulator (s (sync_dest (s a))) else 0)"
  using synchronize_dest [OF assms(2,3)] synchronize_all_dest [OF assms] by simp

lemma sync_voices_apply:
  "sync_voices V0 = idle_generator\<lparr>sync_source := V2, sync_dest := V1, msb_rising := True\<rparr>"
  "sync_voices V1 = idle_generator\<lparr>sync_source := V0, sync_dest := V2, sync := 0x02,
                                      accumulator := 0x123456\<rparr>"
  "sync_voices V2 = idle_generator\<lparr>sync_source := V1, sync_dest := V0\<rparr>"
  by (simp_all add: sync_voices_def idle_voices_apply)

theorem sync_propagation_witness:
  "ring_wired sync_voices \<and> msb_rising (sync_voices V0)
   \<and> sync (sync_voices (sync_dest (sync_voices V0))) \<noteq> 0
   \<and> accumulator (sync_voices V1) = 0x123456
   \<and> accumulator (synchronize V0 sync_voices V1) = 0
   \<and> accumulator (synchronize_all sync_voices V1) = 0"
proof -
  have r: "ring_wired sync_voices"
    by (simp add: ring_wired_def sync_voices_apply)
  have m: "msb_rising (sync_voices V0)"
    by (simp add: sync_voices_apply)
  have d: "sync (sync_voices (sync_dest (sync_voices V0))) \<noteq> 0"
    by (simp add: sync_voices_apply idle_generator_def)
  have "sync_dest (sync_voices V0) = V1" "sync (sync_voices V0) = 0"
    "accumulator (sync_voices V1) = 0x123456"
    by (simp_all add: sync_voices_apply idle_generator_def)
  with sync_propagation [OF r m d] r m d show ?thesis by simp
qed

section \<open>Write-back into the shift register\<close>

lemma write_shift_register_submask:
  "shift_register (write_shift_register g) AND shift_register g
     = shift_register (write_shift_register g)"
  by (simp add: write_shift_register_def Let_def ac_simps)

lemma write_backs_submask:
  "shift_register (write_backs ws g) AND shift_register g = shift_register (write_backs ws g)"
proof (induction ws arbitrary: g)
  case Nil
  then show ?case by (simp add: write_backs_def)
next
  case (Cons w ws)
  let ?h = "write_shift_register (g\<lparr>waveform_output := w\<rparr>)"
  have step: "shift_register ?h AND shift_register g = shift_register ?h"
    using write_shift_register_submask [of "g\<lparr>waveform_output := w\<rparr>"] by simp
  have "write_backs (w # ws) g = write_backs ws ?h"
    by (simp add: write_backs_def)
  moreover have "shift_register (write_backs ws ?h) AND shift_register ?h
                 = shift_register (write_backs ws ?h)"
    by (rule Cons.IH)
  ultimately show ?case
    using step by (metis and.assoc)
qed

text \<open>
  C5.  \<open>write_shift_register\<close> only clears bits of the shift register: for every
  shift register and every digital output the new shift register is a bitwise submask
  of the old one.  So is the shift register after any sequence of write-backs, whatever
  the outputs written: no bit that is clear, at the start or after one of the
  write-backs, is set by a later write-back.
\<close>

theorem write_back_clears_only:
  "shift_register (write_shift_register g) AND shift_register g
     = shift_register (write_shift_register g)
   \<and> shift_register (write_backs ws g) AND shift_register g
     = shift_register (write_backs ws g)
   \<and> shift_register (write_backs (ws @ ws') g) AND shift_register (write_backs ws g)
     = shift_register (write_backs (ws @ ws') g)"
proof -
  have "write_backs (ws @ ws') g = write_backs ws' (write_backs ws g)"
    by (simp add: write_backs_def)
  then show ?thesis
    using write_shift_register_submask [of g] write_backs_submask [of ws g]
      write_backs_submask [of ws' "write_backs ws g"]
    by simp
qed

section \<open>The shift step of the noise register\<close>

lemma taps_as_powers:
  "(0x100000 :: 32 word) = 2 ^ 20" "(0x040000 :: 32 word) = 2 ^ 18"
  "(0x004000 :: 32 word) = 2 ^ 14" "(0x000800 :: 32 word) = 2 ^ 11"
  "(0x000200 :: 32 word) = 2 ^ 9" "(0x000020 :: 32 word) = 2 ^ 5"
  "(0x000004 :: 32 word) = 2 ^ 2" "(0x000001 :: 32 word) = 2 ^ 0"
  by simp_all

lemma mask23: "(0x7fffff :: 32 word) = mask 23"
  by (simp add: mask_eq_exp_minus_1)

lemma tap_down:
  "bit (drop_bit k ((x :: 32 word) AND 2 ^ t)) i = (i + k = t \<and> t < 32 \<and> bit x t)"
  by (auto simp add: bit_drop_bit_eq bit_and_iff bit_exp_iff add.commute dest: bit_imp_le_length)

lemma tap_up:
  "bit (push_bit k ((x :: 32 word) AND 2 ^ t)) i = (i = t + k \<and> i < 32 \<and> bit x t)"
  by (auto simp add: bit_push_bit_iff bit_and_iff bit_exp_iff dest: bit_imp_le_length)

lemma pick_tap: "n < 16 \<Longrightarrow> (i < LENGTH(16) \<and> i = n \<and> P) = (i = n \<and> P)"
  by auto

lemma packed_taps:
  "bit (ucast
           (drop_bit 9 ((x :: 32 word) AND 2 ^ 20) OR
            drop_bit 8 (x AND 2 ^ 18) OR
            drop_bit 5 (x AND 2 ^ 14) OR
            drop_bit 3 (x AND 2 ^ 11) OR
            drop_bit 2 (x AND 2 ^ 9) OR
            push_bit 1 (x AND 2 ^ 5) OR
            push_bit 3 (x AND 2 ^ 2) OR
            push_bit 4 (x AND 2 ^ 0)) :: 16 word) i =
     (i = 11 \<and> bit x 20 \<or> i = 10 \<and> bit x 18 \<or>
      i = 9 \<and> bit x 14 \<or> i = 8 \<and> bit x 11 \<or>
      i = 7 \<and> bit x 9 \<or> i = 6 \<and> bit x 5 \<or>
      i = 5 \<and> bit x 2 \<or> i = 4 \<and> bit x 0)"
proof -
  have a: "i + 9 = 20 \<longleftrightarrow> i = 11" "i + 8 = 18 \<longleftrightarrow> i = 10" "i + 5 = 14 \<longleftrightarrow> i = 9"
    "i + 3 = 11 \<longleftrightarrow> i = 8" "i + 2 = 9 \<longleftrightarrow> i = 7" "i = 5 + 1 \<longleftrightarrow> i = 6"
    "i = 2 + 3 \<longleftrightarrow> i = 5" "i = 0 + 4 \<longleftrightarrow> i = 4"
    by auto
  have b: "(i = 6 \<and> i < 32 \<and> Q) = (i = 6 \<and> Q)" "(i = 5 \<and> i < 32 \<and> Q) = (i = 5 \<and> Q)"
    "(i = 4 \<and> i < 32 \<and> Q) = (i = 4 \<and> Q)" for Q
    by auto
  have c: "(20::nat) < 32" "(18::nat) < 32" "(14::nat) < 32" "(11::nat) < 32" "(9::nat) < 32"
    "(11::nat) < 16" "(10::nat) < 16" "(9::nat) < 16" "(8::nat) < 16" "(7::nat) < 16"
    "(6::nat) < 16" "(5::nat) < 16" "(4::nat) < 16"
    by simp_all
  show ?thesis
    by (simp only: bit_ucast_iff bit_or_iff tap_down tap_up a b c simp_thms
          conj_disj_distribL pick_tap)
qed

lemma noise_output_bits:
  "bit (noise_output (set_noise_output g)) i =
     (i = 11 \<and> bit (shift_register g) 20 \<or> i = 10 \<and> bit (shift_register g) 18 \<or>
      i = 9 \<and> bit (shift_register g) 14 \<or> i = 8 \<and> bit (shift_register g) 11 \<or>
      i = 7 \<and> bit (shift_register g) 9 \<or> i = 6 \<and> bit (shift_register g) 5 \<or>
      i = 5 \<and> bit (shift_register g) 2 \<or> i = 4 \<and> bit (shift_register g) 0)"
proof -
  define n where "n = (ucast
           (drop_bit 9 (shift_register g AND 0x100000) OR
            drop_bit 8 (shift_register g AND 0x040000) OR
            drop_bit 5 (shift_register g AND 0x004000) OR
            drop_bit 3 (shift_register g AND 0x000800) OR
            drop_bit 2 (shift_register g AND 0x000200) OR
            push_bit 1 (shift_register g AND 0x000020) OR
            push_bit 3 (shift_register g AND 0x000004) OR
            push_bit 4 (shift_register g AND 0x000001)) :: ushort)"
  have "set_noise_output g = g\<lparr>noise_output := n, no_noise_or_noise_output := no_noise g OR n\<rparr>"
    unfolding n_def set_noise_output_def Let_def ..
  then have "noise_output (set_noise_output g) = n"
    by simp
  then show ?thesis
    unfolding n_def taps_as_powers by (simp only: packed_taps)
qed

lemma bit_push_bit_1:
  "bit (push_bit 1 (w :: 32 word)) n = (0 < n \<and> n < 32 \<and> bit w (n - 1))"
  by (auto simp only: bit_push_bit_iff possible_bit_word)
     (auto simp add: bit_imp_le_length dest: bit_imp_le_length)

lemma shifted_bits:
  "bit (((push_bit 1 (x :: 32 word)) OR ((drop_bit 22 x XOR drop_bit 17 x) AND 0x1)) AND mask 23) i =
    (if i = 0 then bit x 22 \<noteq> bit x 17 else i < 23 \<and> bit x (i - 1))"
  apply (simp only: bit_and_iff bit_or_iff bit_xor_iff bit_mask_iff bit_push_bit_1
      bit_drop_bit_eq bit_1_iff)
  apply (cases "i = 0")
   apply (simp_all add: bit_0)
  apply auto
  done

lemma clock_shift_register_eq:
  "clock_shift_register g =
     set_noise_output (g\<lparr>shift_register :=
       (push_bit 1 (shift_register g)
        OR ((drop_bit 22 (shift_register g) XOR drop_bit 17 (shift_register g)) AND 0x1))
       AND mask 23\<rparr>)"
  unfolding clock_shift_register_def Let_def mask23 ..

lemma set_noise_output_shift_register:
  "shift_register (set_noise_output h) = shift_register h"
  by (simp add: set_noise_output_def Let_def)

lemma shifted_register_bits:
  "bit (shift_register (clock_shift_register g)) i =
    (if i = 0 then bit (shift_register g) 22 \<noteq> bit (shift_register g) 17
     else i < 23 \<and> bit (shift_register g) (i - 1))"
proof -
  define x where "x = (push_bit 1 (shift_register g)
        OR ((drop_bit 22 (shift_register g) XOR drop_bit 17 (shift_register g)) AND 0x1))
       AND mask 23"
  have "clock_shift_register g = set_noise_output (g\<lparr>shift_register := x\<rparr>)"
    unfolding x_def by (rule clock_shift_register_eq)
  then have "shift_register (clock_shift_register g) = x"
    by (simp add: set_noise_output_shift_register)
  then show ?thesis
    unfolding x_def by (simp only: shifted_bits)
qed

lemma clock_shift_register_noise:
  "noise_output (clock_shift_register g) =
     noise_output (set_noise_output (g\<lparr>shift_register := shift_register (clock_shift_register g)\<rparr>))"
proof -
  define x where "x = (push_bit 1 (shift_register g)
        OR ((drop_bit 22 (shift_register g) XOR drop_bit 17 (shift_register g)) AND 0x1))
       AND mask 23"
  have c: "clock_shift_register g = set_noise_output (g\<lparr>shift_register := x\<rparr>)"
    unfolding x_def by (rule clock_shift_register_eq)
  show ?thesis
    unfolding c by (simp add: set_noise_output_shift_register)
qed

lemma noise_output_taps:
  "bit (noise_output (clock_shift_register g)) i =
     (i = 11 \<and> bit (shift_register (clock_shift_register g)) 20 \<or>
      i = 10 \<and> bit (shift_register (clock_shift_register g)) 18 \<or>
      i = 9 \<and> bit (shift_register (clock_shift_register g)) 14 \<or>
      i = 8 \<and> bit (shift_register (clock_shift_register g)) 11 \<or>
      i = 7 \<and> bit (shift_register (clock_shift_register g)) 9 \<or>
      i = 6 \<and> bit (shift_register (clock_shift_register g)) 5 \<or>
      i = 5 \<and> bit (shift_register (clock_shift_register g)) 2 \<or>
      i = 4 \<and> bit (shift_register (clock_shift_register g)) 0)"
proof -
  define h where "h = g\<lparr>shift_register := shift_register (clock_shift_register g)\<rparr>"
  have sr: "shift_register h = shift_register (clock_shift_register g)"
    by (simp add: h_def)
  have "noise_output (clock_shift_register g) = noise_output (set_noise_output h)"
    unfolding h_def by (rule clock_shift_register_noise)
  then show ?thesis
    by (simp only: noise_output_bits sr)
qed

lemma noise_output_low_high:
  "noise_output (clock_shift_register g) AND 0xf = 0"
  "noise_output (clock_shift_register g) AND 0xf000 = 0"
proof -
  let ?n = "noise_output (clock_shift_register g)"
  have span: "bit ?n k \<Longrightarrow> 4 \<le> k \<and> k < 12" for k
    using noise_output_taps [of g k] by auto
  have "?n AND mask 4 = 0"
  proof (rule bit_word_eqI)
    fix k
    show "bit (?n AND mask 4) k = bit (0 :: 16 word) k"
      using span [of k] by (auto simp add: bit_and_iff bit_mask_iff)
  qed
  then show "?n AND 0xf = 0"
    by (simp add: mask_eq_exp_minus_1)
  have "?n AND push_bit 12 (mask 4) = 0"
  proof (rule bit_word_eqI)
    fix k
    show "bit (?n AND push_bit 12 (mask 4)) k = bit (0 :: 16 word) k"
      using span [of k] by (auto simp add: bit_and_iff bit_push_bit_iff bit_mask_iff)
  qed
  then show "?n AND 0xf000 = 0"
    by (simp add: mask_eq_exp_minus_1)
qed

text \<open>
  C6.  One shift step of the noise register: the new bit 0 is the exclusive or of
  bits 22 and 17 of the current register; every other bit below 23 is the bit one
  position lower of the current register (a left shift by one), and no bit from 23
  upwards is set; the noise output then has its bits 11, 10, 9, 8, 7, 6, 5, 4 equal to
  bits 20, 18, 14, 11, 9, 5, 2, 0 of the shifted register and no other bit set, so its
  low four bits are zero and it fits 12 bits.
\<close>

theorem lfsr_shift_step:
  "bit (shift_register (clock_shift_register g)) 0
     = (bit (shift_register g) 22 \<noteq> bit (shift_register g) 17)
   \<and> (\<forall>i. bit (shift_register (clock_shift_register g)) (Suc i)
            = (i < 22 \<and> bit (shift_register g) i))
   \<and> (\<forall>i. bit (noise_output (clock_shift_register g)) i =
        (i = 11 \<and> bit (shift_register (clock_shift_register g)) 20 \<or>
         i = 10 \<and> bit (shift_register (clock_shift_register g)) 18 \<or>
         i = 9 \<and> bit (shift_register (clock_shift_register g)) 14 \<or>
         i = 8 \<and> bit (shift_register (clock_shift_register g)) 11 \<or>
         i = 7 \<and> bit (shift_register (clock_shift_register g)) 9 \<or>
         i = 6 \<and> bit (shift_register (clock_shift_register g)) 5 \<or>
         i = 5 \<and> bit (shift_register (clock_shift_register g)) 2 \<or>
         i = 4 \<and> bit (shift_register (clock_shift_register g)) 0))
   \<and> shift_register (clock_shift_register g) < 0x800000
   \<and> noise_output (clock_shift_register g) AND 0xf = 0
   \<and> noise_output (clock_shift_register g) AND 0xf000 = 0"
proof -
  have zero: "bit (shift_register (clock_shift_register g)) 0
     = (bit (shift_register g) 22 \<noteq> bit (shift_register g) 17)"
    by (simp only: shifted_register_bits simp_thms if_True)
  have shift: "bit (shift_register (clock_shift_register g)) (Suc i)
            = (i < 22 \<and> bit (shift_register g) i)" for i
  proof -
    have "Suc i < 23 \<longleftrightarrow> i < 22" by arith
    then show ?thesis
      by (simp only: shifted_register_bits nat.distinct if_False diff_Suc_1)
  qed
  have range: "shift_register (clock_shift_register g) < 0x800000"
    by (simp add: clock_shift_register_def set_noise_output_def Let_def and_mask_lt23)
  show ?thesis
    apply (intro conjI allI)
         apply (rule zero)
        apply (rule shift)
       apply (rule noise_output_taps)
      apply (rule range)
     apply (rule noise_output_low_high(1))
    apply (rule noise_output_low_high(2))
    done
qed

section \<open>The frozen clock\<close>

lemma sample_cycles_frame:
  assumes "sample_cycles n s = Some s'"
  shows "test (s' v) = test (s v) \<and> sync (s' v) = sync (s v)
       \<and> sync_source (s' v) = sync_source (s v) \<and> sync_dest (s' v) = sync_dest (s v)
       \<and> pw (s' v) = pw (s v) \<and> waveform (s' v) = waveform (s v)"
  using assms
proof (induction n arbitrary: s)
  case 0
  then show ?case by simp
next
  case (Suc n)
  from Suc.prems obtain s1 where
    1: "sample_cycle s = Some s1" and 2: "sample_cycles n s1 = Some s'"
    by (auto split: option.splits)
  from Suc.IH [OF 2] sample_cycle_frame(1-6) [OF 1, of v]
  show ?case by simp
qed

lemma frozen_synchronize:
  assumes "test (t a) \<noteq> 0" and "msb_rising (t a)" and "sync (t (sync_dest (t a))) \<noteq> 0"
    and "\<not> (sync (t a) \<noteq> 0 \<and> msb_rising (clock (t (sync_source (t a)))))"
  shows "accumulator (synchronize a (clock_all t) (sync_dest (t a))) = 0"
proof -
  have "msb_rising (clock (t a))"
    using assms(1,2) by (simp add: clock_frozen_fields)
  then show ?thesis
    using assms(3,4) by (simp add: synchronize_def Let_def clock_all_apply)
qed

text \<open>
  C10.  With the test bit set, a single-cycle \<open>clock()\<close> changes at most
  \<open>shift_register_reset\<close>, \<open>pulse_output\<close> (set to \<open>0xfff\<close>), the shift register
  and the noise output with its helper \<open>no_noise_or_noise_output\<close>, the last three
  only when the reset countdown completes (it stands at 1); every other field, among
  them accumulator, \<open>msb_rising\<close>, \<open>shift_pipeline\<close>, freq, pw and
  \<open>waveform_output\<close>, is unchanged.  In particular a set \<open>msb_rising\<close> flag of a
  frozen generator is still set after any number of sample cycles, and in the next
  cycle \<open>synchronize()\<close> still zeroes the accumulator of the sync destination when
  the destination has its sync bit set and the suppression condition does not hold.
\<close>

theorem frozen_clock_frame:
  assumes "test (s a) \<noteq> 0"
  shows "clock (s a) =
           (s a)\<lparr>shift_register := shift_register (clock (s a)),
                  shift_register_reset := shift_register_reset (clock (s a)),
                  noise_output := noise_output (clock (s a)),
                  no_noise_or_noise_output := no_noise_or_noise_output (clock (s a)),
                  pulse_output := 0xfff\<rparr>
       \<and> accumulator (clock (s a)) = accumulator (s a)
       \<and> msb_rising (clock (s a)) = msb_rising (s a)
       \<and> shift_pipeline (clock (s a)) = shift_pipeline (s a)
       \<and> freq (clock (s a)) = freq (s a)
       \<and> pw (clock (s a)) = pw (s a)
       \<and> waveform_output (clock (s a)) = waveform_output (s a)
       \<and> (shift_register_reset (s a) \<noteq> 1 \<longrightarrow>
            shift_register (clock (s a)) = shift_register (s a)
          \<and> noise_output (clock (s a)) = noise_output (s a)
          \<and> no_noise_or_noise_output (clock (s a)) = no_noise_or_noise_output (s a))
       \<and> (sample_cycles n s = Some s' \<longrightarrow>
            test (s' a) \<noteq> 0 \<and> msb_rising (s' a) = msb_rising (s a))
       \<and> (sample_cycles n s = Some s' \<and> msb_rising (s a)
            \<and> sync (s' (sync_dest (s' a))) \<noteq> 0
            \<and> \<not> (sync (s' a) \<noteq> 0 \<and> msb_rising (clock (s' (sync_source (s' a))))) \<longrightarrow>
            accumulator (synchronize a (clock_all s') (sync_dest (s' a))) = 0)"
proof -
  have frame: "clock (s a) =
           (s a)\<lparr>shift_register := shift_register (clock (s a)),
                  shift_register_reset := shift_register_reset (clock (s a)),
                  noise_output := noise_output (clock (s a)),
                  no_noise_or_noise_output := no_noise_or_noise_output (clock (s a)),
                  pulse_output := 0xfff\<rparr>"
    using assms by (rule clock_frozen)
  have fields: "accumulator (clock (s a)) = accumulator (s a)"
    "msb_rising (clock (s a)) = msb_rising (s a)"
    "shift_pipeline (clock (s a)) = shift_pipeline (s a)"
    "freq (clock (s a)) = freq (s a)" "pw (clock (s a)) = pw (s a)"
    "waveform_output (clock (s a)) = waveform_output (s a)"
    using assms by (simp_all add: clock_frozen_fields)
  have idle: "shift_register (clock (s a)) = shift_register (s a)
          \<and> noise_output (clock (s a)) = noise_output (s a)
          \<and> no_noise_or_noise_output (clock (s a)) = no_noise_or_noise_output (s a)"
    if "shift_register_reset (s a) \<noteq> 1"
    using assms that by (simp add: clock_frozen_no_reset)
  have later: "test (s' a) \<noteq> 0 \<and> msb_rising (s' a) = msb_rising (s a)"
    if "sample_cycles n s = Some s'"
    using sample_cycles_frozen [OF that assms] assms by simp
  have sync: "accumulator (synchronize a (clock_all s') (sync_dest (s' a))) = 0"
    if "sample_cycles n s = Some s'" "msb_rising (s a)"
      "sync (s' (sync_dest (s' a))) \<noteq> 0"
      "\<not> (sync (s' a) \<noteq> 0 \<and> msb_rising (clock (s' (sync_source (s' a)))))"
  proof -
    have "test (s' a) \<noteq> 0" "msb_rising (s' a)"
      using later [OF that(1)] that(2) by simp_all
    then show ?thesis using that(3,4) by (rule frozen_synchronize)
  qed
  show ?thesis
    using frame fields idle later sync by blast
qed

lemma frozen_sync_voices_apply:
  "frozen_sync_voices V0 =
     idle_generator\<lparr>sync_source := V2, sync_dest := V1, test := 0x08, msb_rising := True\<rparr>"
  "frozen_sync_voices V1 =
     idle_generator\<lparr>sync_source := V0, sync_dest := V2, sync := 0x02, accumulator := 0x123456\<rparr>"
  "frozen_sync_voices V2 = idle_generator\<lparr>sync_source := V1, sync_dest := V0\<rparr>"
  by (simp_all add: frozen_sync_voices_def idle_voices_apply)

lemma tables_frozen_sync_voices: "tables_in_reach frozen_sync_voices"
  unfolding tables_in_reach_def
proof
  fix v
  show "registers_in_range (frozen_sync_voices v)
        \<and> ring_msb_mask (frozen_sync_voices v) < 0x1000000"
    by (cases v)
       (simp_all add: frozen_sync_voices_apply idle_generator_def registers_in_range_def)
qed

theorem frozen_clock_frame_witness:
  "test (frozen_sync_voices V0) \<noteq> 0
   \<and> shift_register_reset (frozen_sync_voices V0) \<noteq> 1
   \<and> sample_cycles 3 frozen_sync_voices = Some (the (sample_cycles 3 frozen_sync_voices))
   \<and> msb_rising (frozen_sync_voices V0)
   \<and> sync (the (sample_cycles 3 frozen_sync_voices)
             (sync_dest (the (sample_cycles 3 frozen_sync_voices) V0))) \<noteq> 0
   \<and> \<not> (sync (the (sample_cycles 3 frozen_sync_voices) V0) \<noteq> 0
         \<and> msb_rising (clock (the (sample_cycles 3 frozen_sync_voices)
               (sync_source (the (sample_cycles 3 frozen_sync_voices) V0)))))
   \<and> accumulator (clock (frozen_sync_voices V0)) = accumulator (frozen_sync_voices V0)
   \<and> msb_rising (clock (frozen_sync_voices V0)) = msb_rising (frozen_sync_voices V0)
   \<and> shift_register (clock (frozen_sync_voices V0)) = shift_register (frozen_sync_voices V0)
   \<and> msb_rising (the (sample_cycles 3 frozen_sync_voices) V0)
   \<and> accumulator (synchronize V0 (clock_all (the (sample_cycles 3 frozen_sync_voices)))
        (sync_dest (the (sample_cycles 3 frozen_sync_voices) V0))) = 0"
proof -
  let ?s = "frozen_sync_voices"
  let ?s' = "the (sample_cycles 3 frozen_sync_voices)"
  have t: "test (?s V0) \<noteq> 0"
    by (simp add: frozen_sync_voices_apply)
  have r: "shift_register_reset (?s V0) \<noteq> 1"
    by (simp add: frozen_sync_voices_apply idle_generator_def)
  have c: "sample_cycles 3 ?s = Some ?s'"
    using sample_cycles_total [OF tables_frozen_sync_voices, of 3] by auto
  have m: "msb_rising (?s V0)"
    by (simp add: frozen_sync_voices_apply)
  have d: "sync (?s' (sync_dest (?s' V0))) \<noteq> 0"
    using sample_cycles_frame [OF c, of V0] sample_cycles_frame [OF c, of V1]
    by (simp add: frozen_sync_voices_apply idle_generator_def)
  have q: "\<not> (sync (?s' V0) \<noteq> 0 \<and> msb_rising (clock (?s' (sync_source (?s' V0)))))"
    using sample_cycles_frame [OF c, of V0]
    by (simp add: frozen_sync_voices_apply idle_generator_def)
  from frozen_clock_frame [where s = ?s and a = V0 and n = 3 and s' = ?s'] t r c m d q
  show ?thesis
    by (simp del: sample_cycles.simps)
qed

section \<open>Test-bit freeze\<close>

lemma pulse_level_eq:
  "pulse_level g = (if pw g \<le> drop_bit 12 (accumulator g) then 0xfff else 0x000)"
  by (simp add: pulse_level_def)

lemma frozen_voices_apply:
  "frozen_voices V0 = idle_generator\<lparr>sync_source := V2, sync_dest := V1, test := 0x08, pw := 1\<rparr>"
  "frozen_voices V1 = idle_generator\<lparr>sync_source := V0, sync_dest := V2\<rparr>"
  "frozen_voices V2 = idle_generator\<lparr>sync_source := V1, sync_dest := V0\<rparr>"
  by (simp_all add: frozen_voices_def idle_voices_apply)

lemma tables_frozen_voices: "tables_in_reach frozen_voices"
  unfolding tables_in_reach_def
proof
  fix v
  show "registers_in_range (frozen_voices v) \<and> ring_msb_mask (frozen_voices v) < 0x1000000"
    by (cases v) (simp_all add: frozen_voices_apply idle_generator_def registers_in_range_def)
qed

lemma frozen_dest_voices_apply:
  "frozen_dest_voices V0 =
     idle_generator\<lparr>sync_source := V2, sync_dest := V1, accumulator := 0x7ff000,
                     freq := 0x1000\<rparr>"
  "frozen_dest_voices V1 =
     idle_generator\<lparr>sync_source := V0, sync_dest := V2, test := 0x08, sync := 0x02,
                     accumulator := 0x123456\<rparr>"
  "frozen_dest_voices V2 = idle_generator\<lparr>sync_source := V1, sync_dest := V0\<rparr>"
  by (simp_all add: frozen_dest_voices_def idle_voices_apply)

lemma tables_frozen_dest_voices: "tables_in_reach frozen_dest_voices"
  unfolding tables_in_reach_def
proof
  fix v
  show "registers_in_range (frozen_dest_voices v)
        \<and> ring_msb_mask (frozen_dest_voices v) < 0x1000000"
    by (cases v)
       (simp_all add: frozen_dest_voices_apply idle_generator_def registers_in_range_def)
qed

lemma clock_running_msb_rising:
  "test g = 0 \<Longrightarrow>
   msb_rising (clock g) =
     ((NOT (accumulator g) AND ((accumulator g + freq g) AND 0xffffff)) AND 0x800000 \<noteq> 0)"
  by (simp add: clock_def shift_register_defs)

lemma frozen_dest_synchronized:
  "accumulator (synchronize_all (clock_all frozen_dest_voices) V1) = 0"
proof -
  let ?t = "clock_all frozen_dest_voices"
  have r: "ring_wired ?t"
    by (simp add: ring_wired_def clock_all_apply frozen_dest_voices_apply)
  have "test (frozen_dest_voices V0) = 0"
    by (simp add: frozen_dest_voices_apply idle_generator_def)
  then have m: "msb_rising (?t V0)"
    by (simp add: clock_all_apply clock_running_msb_rising frozen_dest_voices_apply)
  have d: "sync_dest (?t V0) = V1" "sync (?t V1) \<noteq> 0" "sync (?t V0) = 0"
    by (simp_all add: clock_all_apply frozen_dest_voices_apply idle_generator_def)
  from d(1,2) have "sync (?t (sync_dest (?t V0))) \<noteq> 0" by simp
  from synchronize_all_dest [OF r m this] d show ?thesis by simp
qed

lemma drive_msb_submask:
  "accumulator (drive_msb g) AND accumulator g = accumulator (drive_msb g)"
  by (simp add: drive_msb_def ac_simps)

lemma set_waveform_output_with_submask:
  assumes "set_waveform_output_with a g = Some g'"
  shows "accumulator g' AND accumulator g = accumulator g'"
  using set_waveform_output_with_cases [OF assms] drive_msb_submask [of
      "latch_osc3 (wave_index a g) (select_output (wave_index a g) g)"]
  by auto

lemma sample_cycle_submask:
  assumes "sample_cycle s = Some s'" and "test (s v) \<noteq> 0"
  shows "accumulator (s' v) AND accumulator (s v) = accumulator (s' v)"
proof -
  from sample_cycle_apply [OF assms(1), of v] obtain a c where
    ac: "set_waveform_output_with a ((clock (s v))\<lparr>accumulator := c\<rparr>) = Some (s' v)"
      "c = accumulator (clock (s v)) \<or> c = 0" by blast
  have sub: "accumulator (s' v) AND c = accumulator (s' v)"
    using set_waveform_output_with_submask [OF ac(1)] by simp
  from ac(2) show ?thesis
  proof
    assume "c = accumulator (clock (s v))"
    then show ?thesis using sub assms(2) by (simp add: clock_frozen_fields)
  next
    assume "c = 0"
    then have "accumulator (s' v) = 0" using sub by simp
    then show ?thesis by simp
  qed
qed

lemma sample_cycles_submask:
  assumes "sample_cycles n s = Some s'" and "test (s v) \<noteq> 0"
  shows "accumulator (s' v) AND accumulator (s v) = accumulator (s' v)"
  using assms
proof (induction n arbitrary: s)
  case 0
  then show ?case by simp
next
  case (Suc n)
  from Suc.prems(1) obtain s1 where
    1: "sample_cycle s = Some s1" and 2: "sample_cycles n s1 = Some s'"
    by (auto split: option.splits)
  have "test (s1 v) \<noteq> 0"
    using sample_cycle_frame(1) [OF 1, of v] Suc.prems(2) by simp
  from Suc.IH [OF 2 this] sample_cycle_submask [OF 1 Suc.prems(2)]
  show ?case by (metis and.assoc)
qed

text \<open>
  C3, as stated, fails.  In \<open>frozen_voices\<close> voice 0 has the test bit set, its
  accumulator at 0 and a pulse width of 1.  One sample cycle (clock, synchronize,
  set_waveform_output) returns and leaves \<open>pulse_output\<close> of voice 0 at \<open>0x000\<close>,
  not \<open>0xfff\<close>: the last statement of \<open>set_waveform_output()\<close> stores the
  comparator result whatever the test bit is.  In \<open>frozen_dest_voices\<close> voice 1 has
  the test bit and the sync bit set and the accumulator \<open>0x123456\<close>; the MSB of its
  sync source rises in the cycle, and the cycle leaves the accumulator of voice 1 at 0.
\<close>

theorem test_bit_freeze_counterexample:
  "test (frozen_voices V0) \<noteq> 0
   \<and> sample_cycle frozen_voices = Some (the (sample_cycle frozen_voices))
   \<and> pulse_output (the (sample_cycle frozen_voices) V0) = 0x000
   \<and> pulse_output (the (sample_cycle frozen_voices) V0) \<noteq> 0xfff
   \<and> test (frozen_dest_voices V1) \<noteq> 0
   \<and> sample_cycle frozen_dest_voices = Some (the (sample_cycle frozen_dest_voices))
   \<and> accumulator (frozen_dest_voices V1) = 0x123456
   \<and> accumulator (the (sample_cycle frozen_dest_voices) V1) = 0"
proof -
  let ?s' = "the (sample_cycle frozen_voices)"
  have t: "test (frozen_voices V0) \<noteq> 0"
    by (simp add: frozen_voices_apply)
  have c: "sample_cycle frozen_voices = Some ?s'"
    using sample_cycle_total [OF tables_frozen_voices] by auto
  have "accumulator (frozen_voices V0) = 0"
    by (simp add: frozen_voices_apply idle_generator_def)
  then have a: "accumulator (?s' V0) = 0"
    using sample_cycle_frozen(2) [OF c t] by simp
  have "pw (?s' V0) = 1"
    using sample_cycle_frame(5) [OF c, of V0] by (simp add: frozen_voices_apply)
  then have low: "pulse_output (?s' V0) = 0"
    using sample_cycle_frame(7) [OF c, of V0] a by (simp add: pulse_level_eq)
  let ?d' = "the (sample_cycle frozen_dest_voices)"
  have dt: "test (frozen_dest_voices V1) \<noteq> 0"
    "accumulator (frozen_dest_voices V1) = 0x123456"
    by (simp_all add: frozen_dest_voices_apply)
  have dc: "sample_cycle frozen_dest_voices = Some ?d'"
    using sample_cycle_total [OF tables_frozen_dest_voices] by auto
  then obtain b where
    "set_waveform_output_with b (synchronize_all (clock_all frozen_dest_voices) V1)
       = Some (?d' V1)"
    unfolding sample_cycle_def using set_waveform_output_all_apply by blast
  then have reset: "accumulator (?d' V1) = 0"
    using frozen_dest_synchronized by (rule set_waveform_output_with_zero)
  show ?thesis
    using t c low dt dc reset by simp
qed

text \<open>
  C3, amended.  With the test bit set, any number of \<open>clock()\<close> calls leaves the
  accumulator unchanged and \<open>pulse_output\<close> at \<open>0xfff\<close>.  Over any number of
  sample cycles (clock, synchronize, set_waveform_output) the test bit stays set, the
  pulse level that the next \<open>set_waveform_output()\<close> reads, after clock and
  synchronize, is \<open>0xfff\<close>, and the accumulator never gains a bit: it is a bitwise
  submask of what it was, so an accumulator that is 0, as setting the test bit leaves
  it, stays 0.
\<close>

theorem test_bit_freeze:
  assumes "test (s v) \<noteq> 0"
  shows "accumulator ((clock ^^ n) (s v)) = accumulator (s v)
       \<and> pulse_output ((clock ^^ Suc n) (s v)) = 0xfff
       \<and> (sample_cycles n s = Some s' \<longrightarrow>
            test (s' v) \<noteq> 0
          \<and> pulse_output (synchronize_all (clock_all s') v) = 0xfff
          \<and> accumulator (s' v) AND accumulator (s v) = accumulator (s' v)
          \<and> (accumulator (s v) = 0 \<longrightarrow> accumulator (s' v) = 0))"
proof -
  have pow: "test ((clock ^^ n) (s v)) = test (s v)"
    "accumulator ((clock ^^ n) (s v)) = accumulator (s v)"
    using clock_pow_frozen [OF assms, of n] by simp_all
  have "test ((clock ^^ n) (s v)) \<noteq> 0"
    using pow(1) assms by simp
  then have pulse: "pulse_output ((clock ^^ Suc n) (s v)) = 0xfff"
    by (simp add: clock_frozen_fields)
  have cycles: "test (s' v) \<noteq> 0
          \<and> pulse_output (synchronize_all (clock_all s') v) = 0xfff
          \<and> accumulator (s' v) AND accumulator (s v) = accumulator (s' v)
          \<and> (accumulator (s v) = 0 \<longrightarrow> accumulator (s' v) = 0)"
    if "sample_cycles n s = Some s'"
  proof -
    have f: "test (s' v) = test (s v)" "accumulator (s v) = 0 \<longrightarrow> accumulator (s' v) = 0"
      using sample_cycles_frozen [OF that assms] by simp_all
    then have "test (s' v) \<noteq> 0" using assms by simp
    then have "pulse_output (synchronize_all (clock_all s') v) = 0xfff"
      by (simp add: before_output_apply clock_frozen_fields)
    then show ?thesis
      using f assms sample_cycles_submask [OF that assms] by simp
  qed
  show ?thesis
    using pow(2) pulse cycles by blast
qed

theorem test_bit_freeze_witness:
  "test (frozen_voices V0) \<noteq> 0
   \<and> sample_cycles 4 frozen_voices = Some (the (sample_cycles 4 frozen_voices))
   \<and> accumulator (frozen_voices V0) = 0
   \<and> accumulator ((clock ^^ 4) (frozen_voices V0)) = accumulator (frozen_voices V0)
   \<and> pulse_output ((clock ^^ Suc 4) (frozen_voices V0)) = 0xfff
   \<and> test (the (sample_cycles 4 frozen_voices) V0) \<noteq> 0
   \<and> pulse_output (synchronize_all (clock_all (the (sample_cycles 4 frozen_voices))) V0) = 0xfff
   \<and> accumulator (the (sample_cycles 4 frozen_voices) V0) AND accumulator (frozen_voices V0)
       = accumulator (the (sample_cycles 4 frozen_voices) V0)
   \<and> accumulator (the (sample_cycles 4 frozen_voices) V0) = 0"
proof -
  have t: "test (frozen_voices V0) \<noteq> 0"
    by (simp add: frozen_voices_apply)
  have c: "sample_cycles 4 frozen_voices = Some (the (sample_cycles 4 frozen_voices))"
    using sample_cycles_total [OF tables_frozen_voices, of 4] by auto
  have z: "accumulator (frozen_voices V0) = 0"
    by (simp add: frozen_voices_apply idle_generator_def)
  from test_bit_freeze [where s = frozen_voices and v = V0 and n = 4
      and s' = "the (sample_cycles 4 frozen_voices)"] t c z
  show ?thesis
    by (simp del: sample_cycles.simps funpow.simps)
qed

section \<open>The pulse comparator and its pipeline\<close>

lemma sample_cycle_output:
  assumes "sample_cycle s = Some s1" and "waveform (s v) \<noteq> 0" and "waveform (s v) AND 0xc \<noteq> 0xc"
  shows "\<exists>ix. waveform_output (s1 v) =
           ucast (wave (synchronize_all (clock_all s) v) ix
                  AND (no_pulse (synchronize_all (clock_all s) v)
                       OR pulse_output (synchronize_all (clock_all s) v))
                  AND no_noise_or_noise_output (synchronize_all (clock_all s) v))"
proof -
  let ?g = "synchronize_all (clock_all s) v"
  from assms(1) obtain a where
    a: "set_waveform_output_with a ?g = Some (s1 v)"
    unfolding sample_cycle_def using set_waveform_output_all_apply by blast
  have e: "?g = (clock (s v))\<lparr>accumulator := accumulator ?g\<rparr>"
    using synchronize_all_apply [of "clock_all s" v] by (simp add: clock_all_apply)
  have "waveform ?g = waveform (clock (s v))"
    by (subst e) simp
  then have w: "waveform ?g \<noteq> 0" "waveform ?g AND 0xc \<noteq> 0xc"
    using assms(2,3) by simp_all
  then have "s1 v = push_pulse_level (write_back (drive_msb
                (latch_osc3 (wave_index a ?g) (select_output (wave_index a ?g) ?g))))"
    using a by (simp add: set_waveform_output_with_def Let_def split: if_splits)
  then have "waveform_output (s1 v) = waveform_output (select_output (wave_index a ?g) ?g)"
    by simp
  also have "\<dots> = ucast (wave ?g (wave_index a ?g) AND (no_pulse ?g OR pulse_output ?g)
                          AND no_noise_or_noise_output ?g)"
    using w(2) by (simp add: select_output_def Let_def)
  finally show ?thesis by blast
qed

lemma clock_delta_pulse_output:
  assumes "test g = 0"
  shows "\<exists>g'. clock_delta delta_t g = Some g'
           \<and> pulse_output g'
               = (if pw g' \<le> drop_bit 12 (accumulator g') then 0xfff else 0x000)"
proof -
  define m where "m = ((NOT (accumulator g) AND ((accumulator g + delta_t * freq g) AND 0xffffff))
                        AND 0x800000 \<noteq> 0)"
  define g1 where "g1 = g\<lparr>accumulator := (accumulator g + delta_t * freq g) AND 0xffffff,
                          msb_rising := m\<rparr>"
  have unfold: "clock_delta delta_t g =
                  (case shift_loop (delta_t * freq g) 0x100000 g1 of
                     None \<Rightarrow> None
                   | Some g2 \<Rightarrow>
                       Some (g2\<lparr>pulse_output :=
                              (if drop_bit 12 (accumulator g2) \<ge> pw g2 then 0xfff else 0x000)\<rparr>))"
    using assms unfolding g1_def m_def clock_delta_def Let_def by simp
  obtain n where n: "shift_loop (delta_t * freq g) 0x100000 g1
                     = Some ((clock_shift_register ^^ n) g1)"
    using shift_loop_total [of "0x100000" "delta_t * freq g" g1] by auto
  define g2 where "g2 = (clock_shift_register ^^ n) g1"
  have "clock_delta delta_t g =
          Some (g2\<lparr>pulse_output :=
                    (if drop_bit 12 (accumulator g2) \<ge> pw g2 then 0xfff else 0x000)\<rparr>)"
    unfolding g2_def by (simp only: unfold n option.case)
  then show ?thesis by simp
qed

lemma pulse_voices_apply:
  "pulse_voices V0 = idle_generator\<lparr>sync_source := V2, sync_dest := V1\<rparr>"
  "pulse_voices V1 = idle_generator\<lparr>sync_source := V0, sync_dest := V2, test := 0x08,
                                       waveform := 0x4, no_pulse := 0, pw := 0x800\<rparr>"
  "pulse_voices V2 = idle_generator\<lparr>sync_source := V1, sync_dest := V0\<rparr>"
  by (simp_all add: pulse_voices_def idle_voices_apply)

lemma tables_pulse_voices: "tables_in_reach pulse_voices"
  unfolding tables_in_reach_def
proof
  fix v
  show "registers_in_range (pulse_voices v) \<and> ring_msb_mask (pulse_voices v) < 0x1000000"
    by (cases v) (simp_all add: pulse_voices_apply idle_generator_def registers_in_range_def)
qed

text \<open>
  C8, as stated, fails.  Voice 1 has the pulse waveform selected, the test bit set, its
  accumulator at 0 and a pulse width of \<open>0x800\<close>.  The first sample cycle ends with
  the comparator result \<open>0x000\<close> in \<open>pulse_output\<close>, since 0 is below the pulse
  width.  One cycle later that result is not what the output computation reads: after
  clock and synchronize the pulse level is \<open>0xfff\<close>.
\<close>

theorem pulse_comparator_counterexample:
  "sample_cycle pulse_voices = Some (the (sample_cycle pulse_voices))
   \<and> pulse_output (the (sample_cycle pulse_voices) V1) = 0x000
   \<and> pulse_output (synchronize_all (clock_all (the (sample_cycle pulse_voices))) V1) = 0xfff"
proof -
  let ?s' = "the (sample_cycle pulse_voices)"
  have t: "test (pulse_voices V1) \<noteq> 0"
    by (simp add: pulse_voices_apply)
  have c: "sample_cycle pulse_voices = Some ?s'"
    using sample_cycle_total [OF tables_pulse_voices] by auto
  have "accumulator (pulse_voices V1) = 0"
    by (simp add: pulse_voices_apply idle_generator_def)
  then have a: "accumulator (?s' V1) = 0"
    using sample_cycle_frozen(2) [OF c t] by simp
  have "pw (?s' V1) = 0x800"
    using sample_cycle_frame(5) [OF c, of V1] by (simp add: pulse_voices_apply)
  then have low: "pulse_output (?s' V1) = 0"
    using sample_cycle_frame(7) [OF c, of V1] a by (simp add: pulse_level_eq)
  have "test (?s' V1) \<noteq> 0"
    using sample_cycle_frame(1) [OF c, of V1] t by simp
  then have "pulse_output (synchronize_all (clock_all ?s') V1) = 0xfff"
    by (simp add: before_output_apply clock_frozen_fields)
  then show ?thesis using low c by simp
qed

text \<open>
  C8, amended.  In single-cycle clocking, every sample cycle ends, whatever the
  waveform selector is, with \<open>pulse_output\<close> recomputed as \<open>0xfff\<close> if the upper
  12 bits of the accumulator are at least the pulse width and \<open>0x000\<close> otherwise.
  When the test bit is clear, that result is the pulse level which the output
  computation of the next cycle reads, one cycle after the comparison; when the test
  bit is set, the next \<open>clock()\<close> replaces it with \<open>0xfff\<close>.  The output computed in
  a cycle combines the table sample with the pulse level present before it, not with
  the one it is about to store.  The delta clock, with the test bit clear, computes the
  comparator result itself, with no delay.
\<close>

theorem pulse_comparator_pipeline:
  assumes "sample_cycle s = Some s1"
  shows "pulse_output (s1 v)
           = (if pw (s1 v) \<le> drop_bit 12 (accumulator (s1 v)) then 0xfff else 0x000)
       \<and> (test (s1 v) = 0 \<longrightarrow>
            pulse_output (synchronize_all (clock_all s1) v) = pulse_output (s1 v))
       \<and> (test (s1 v) \<noteq> 0 \<longrightarrow>
            pulse_output (synchronize_all (clock_all s1) v) = 0xfff)
       \<and> (waveform (s v) \<noteq> 0 \<and> waveform (s v) AND 0xc \<noteq> 0xc \<longrightarrow>
            (\<exists>ix. waveform_output (s1 v) =
               ucast (wave (synchronize_all (clock_all s) v) ix
                      AND (no_pulse (synchronize_all (clock_all s) v)
                           OR pulse_output (synchronize_all (clock_all s) v))
                      AND no_noise_or_noise_output (synchronize_all (clock_all s) v))))
       \<and> (test (s v) = 0 \<longrightarrow>
            (\<exists>g'. clock_delta delta_t (s v) = Some g'
               \<and> pulse_output g'
                   = (if pw g' \<le> drop_bit 12 (accumulator g') then 0xfff else 0x000)))"
proof -
  have comparator: "pulse_output (s1 v)
           = (if pw (s1 v) \<le> drop_bit 12 (accumulator (s1 v)) then 0xfff else 0x000)"
    using sample_cycle_frame(7) [OF assms, of v] by (simp only: pulse_level_eq)
  have running: "pulse_output (synchronize_all (clock_all s1) v) = pulse_output (s1 v)"
    if "test (s1 v) = 0"
    using that by (simp add: before_output_apply clock_running_pulse_output)
  have frozen: "pulse_output (synchronize_all (clock_all s1) v) = 0xfff"
    if "test (s1 v) \<noteq> 0"
    using that by (simp add: before_output_apply clock_frozen_fields)
  have delta: "\<exists>g'. clock_delta delta_t (s v) = Some g'
               \<and> pulse_output g'
                   = (if pw g' \<le> drop_bit 12 (accumulator g') then 0xfff else 0x000)"
    if "test (s v) = 0"
    using that by (rule clock_delta_pulse_output)
  show ?thesis
    using comparator running frozen sample_cycle_output [OF assms, of v] delta by blast
qed

lemma running_pulse_voices_apply:
  "running_pulse_voices V0 = idle_generator\<lparr>sync_source := V2, sync_dest := V1\<rparr>"
  "running_pulse_voices V1 =
     idle_generator\<lparr>sync_source := V0, sync_dest := V2, waveform := 0x4, no_pulse := 0,
                     pw := 0x800, accumulator := 0x7ff000, freq := 0x1000\<rparr>"
  "running_pulse_voices V2 = idle_generator\<lparr>sync_source := V1, sync_dest := V0\<rparr>"
  by (simp_all add: running_pulse_voices_def idle_voices_apply)

lemma tables_running_pulse_voices: "tables_in_reach running_pulse_voices"
  unfolding tables_in_reach_def
proof
  fix v
  show "registers_in_range (running_pulse_voices v)
        \<and> ring_msb_mask (running_pulse_voices v) < 0x1000000"
    by (cases v)
       (simp_all add: running_pulse_voices_apply idle_generator_def registers_in_range_def)
qed

theorem pulse_comparator_pipeline_witness:
  "sample_cycle running_pulse_voices = Some (the (sample_cycle running_pulse_voices))
   \<and> test (the (sample_cycle running_pulse_voices) V1) = 0
   \<and> waveform (running_pulse_voices V1) \<noteq> 0
   \<and> waveform (running_pulse_voices V1) AND 0xc \<noteq> 0xc
   \<and> pulse_output (the (sample_cycle running_pulse_voices) V1)
       = (if pw (the (sample_cycle running_pulse_voices) V1)
               \<le> drop_bit 12 (accumulator (the (sample_cycle running_pulse_voices) V1))
          then 0xfff else 0x000)
   \<and> pulse_output (synchronize_all (clock_all (the (sample_cycle running_pulse_voices))) V1)
       = pulse_output (the (sample_cycle running_pulse_voices) V1)
   \<and> (\<exists>ix. waveform_output (the (sample_cycle running_pulse_voices) V1) =
         ucast (wave (synchronize_all (clock_all running_pulse_voices) V1) ix
                AND (no_pulse (synchronize_all (clock_all running_pulse_voices) V1)
                     OR pulse_output (synchronize_all (clock_all running_pulse_voices) V1))
                AND no_noise_or_noise_output (synchronize_all (clock_all running_pulse_voices) V1)))
   \<and> test (running_pulse_voices V1) = 0
   \<and> (\<exists>g'. clock_delta 7 (running_pulse_voices V1) = Some g'
          \<and> pulse_output g'
              = (if pw g' \<le> drop_bit 12 (accumulator g') then 0xfff else 0x000))"
proof -
  let ?s1 = "the (sample_cycle running_pulse_voices)"
  have c: "sample_cycle running_pulse_voices = Some ?s1"
    using sample_cycle_total [OF tables_running_pulse_voices] by auto
  have t: "test (?s1 V1) = 0"
    using sample_cycle_frame(1) [OF c, of V1]
    by (simp add: running_pulse_voices_apply idle_generator_def)
  have w: "waveform (running_pulse_voices V1) \<noteq> 0"
    "waveform (running_pulse_voices V1) AND 0xc \<noteq> 0xc"
    by (simp_all add: running_pulse_voices_apply)
  have t0: "test (running_pulse_voices V1) = 0"
    by (simp add: running_pulse_voices_apply idle_generator_def)
  from pulse_comparator_pipeline [OF c, of V1 7] c t w t0 show ?thesis
    by simp
qed

section \<open>The registers stay within their widths\<close>

text \<open>
  C9.  When every generator has its accumulator below \<open>2 ^ 24\<close> and its shift
  register below \<open>2 ^ 23\<close>, every operation leaves them so: the single-cycle clock,
  the delta clock (which returns), \<open>synchronize\<close>, both \<open>set_waveform_output\<close>
  functions where they return, \<open>clock_shift_register\<close>, \<open>write_shift_register\<close> and
  \<open>reset_shift_register\<close>.  Both \<open>set_waveform_output\<close> functions return when the
  ring modulation mask of the generator lies within the 24 bits of the accumulator.
\<close>

theorem registers_stay_in_range:
  assumes "\<forall>u. registers_in_range (s u)"
  shows "registers_in_range (clock (s v))
       \<and> (\<exists>g'. clock_delta delta_t (s v) = Some g' \<and> registers_in_range g')
       \<and> registers_in_range (synchronize a s v)
       \<and> (set_waveform_output a s = Some s' \<longrightarrow> registers_in_range (s' v))
       \<and> (set_waveform_output_delta a delta_t s = Some s'' \<longrightarrow> registers_in_range (s'' v))
       \<and> (ring_msb_mask (s a) < 0x1000000 \<longrightarrow>
            (\<exists>t. set_waveform_output a s = Some t \<and> registers_in_range (t v))
          \<and> (\<exists>t. set_waveform_output_delta a delta_t s = Some t \<and> registers_in_range (t v)))
       \<and> registers_in_range (clock_shift_register (s v))
       \<and> registers_in_range (write_shift_register (s v))
       \<and> registers_in_range (reset_shift_register (s v))"
proof -
  have g: "registers_in_range (s v)"
    using assms by simp
  then have acc: "accumulator (s v) < 0x1000000"
    by (simp add: registers_in_range_def)
  have out: "registers_in_range (s' v)" if "set_waveform_output a s = Some s'"
    using assms that by (rule range_set_waveform_output)
  have out_delta: "registers_in_range (s'' v)"
    if "set_waveform_output_delta a delta_t s = Some s''"
    using assms that by (rule range_set_waveform_output_delta)
  have returns: "(\<exists>t. set_waveform_output a s = Some t \<and> registers_in_range (t v))
          \<and> (\<exists>t. set_waveform_output_delta a delta_t s = Some t \<and> registers_in_range (t v))"
    if m: "ring_msb_mask (s a) < 0x1000000"
  proof -
    have "registers_in_range (s a)"
      using assms by simp
    then have "accumulator (s a) < 0x1000000"
      by (simp add: registers_in_range_def)
    then have ix: "wave_index (accumulator (s (sync_source (s a)))) (s a) < 4096"
      using m by (rule wave_index_lt)
    then have "\<exists>t. set_waveform_output a s = Some t"
      by (simp add: set_waveform_output_def set_waveform_output_with_def Let_def)
    moreover have "\<exists>t. set_waveform_output_delta a delta_t s = Some t"
      using ix
      by (simp add: set_waveform_output_delta_def set_waveform_output_delta_with_def Let_def)
    ultimately show ?thesis
      using range_set_waveform_output [OF assms] range_set_waveform_output_delta [OF assms]
      by blast
  qed
  show ?thesis
    using range_clock [OF g] range_clock_delta [OF g, of delta_t]
      range_synchronize [OF assms, of a v] out out_delta returns
      range_clock_shift_register [OF acc] range_write_shift_register [OF g]
      range_reset_shift_register [OF acc]
    by blast
qed

lemma registers_running_pulse_voices: "\<forall>u. registers_in_range (running_pulse_voices u)"
  using tables_running_pulse_voices by (simp add: tables_in_reach_def)

theorem registers_stay_in_range_witness:
  "(\<forall>u. registers_in_range (running_pulse_voices u))
   \<and> ring_msb_mask (running_pulse_voices V1) < 0x1000000
   \<and> (\<exists>t. set_waveform_output V1 running_pulse_voices = Some t \<and> registers_in_range (t V1))
   \<and> (\<exists>t. set_waveform_output_delta V1 5 running_pulse_voices = Some t
          \<and> registers_in_range (t V1))
   \<and> set_waveform_output V1 running_pulse_voices
       = Some (the (set_waveform_output V1 running_pulse_voices))
   \<and> set_waveform_output_delta V1 5 running_pulse_voices
       = Some (the (set_waveform_output_delta V1 5 running_pulse_voices))
   \<and> registers_in_range (clock (running_pulse_voices V1))
   \<and> (\<exists>g'. clock_delta 5 (running_pulse_voices V1) = Some g' \<and> registers_in_range g')
   \<and> registers_in_range (synchronize V0 running_pulse_voices V1)
   \<and> registers_in_range (the (set_waveform_output V1 running_pulse_voices) V1)
   \<and> registers_in_range (the (set_waveform_output_delta V1 5 running_pulse_voices) V1)
   \<and> registers_in_range (clock_shift_register (running_pulse_voices V1))
   \<and> registers_in_range (write_shift_register (running_pulse_voices V1))
   \<and> registers_in_range (reset_shift_register (running_pulse_voices V1))"
proof -
  let ?s = "running_pulse_voices"
  have o: "set_waveform_output V1 ?s = Some (the (set_waveform_output V1 ?s))"
    using tables_set_waveform_output [OF tables_running_pulse_voices, of V1] by auto
  have "wave_index a (?s V1) < 4096" for a
    by (rule wave_index_lt)
       (simp_all add: running_pulse_voices_apply idle_generator_def)
  then have d: "set_waveform_output_delta V1 5 ?s
                = Some (the (set_waveform_output_delta V1 5 ?s))"
    by (simp add: set_waveform_output_delta_def set_waveform_output_delta_with_def Let_def
          running_pulse_voices_apply)
  note registers_stay_in_range [OF registers_running_pulse_voices, where v = V1 and a = V1
      and delta_t = 5 and s' = "the (set_waveform_output V1 ?s)"
      and s'' = "the (set_waveform_output_delta V1 5 ?s)"]
    registers_stay_in_range [OF registers_running_pulse_voices, where v = V1 and a = V0]
    registers_running_pulse_voices o d
  moreover
  have m: "ring_msb_mask (running_pulse_voices V1) < 0x1000000"
    by (simp add: running_pulse_voices_apply idle_generator_def)
  ultimately show ?thesis by blast
qed

section \<open>Floating decay\<close>

text \<open>
  C7.  With no waveform selected and a positive \<open>floating_output_ttl\<close> of \<open>T\<close>:
  every run of fewer than \<open>T\<close> calls of \<open>set_waveform_output()\<close> returns and leaves
  \<open>waveform_output\<close> and \<open>osc3\<close> exactly as they were (no zeroing before cycle
  \<open>T\<close>, so an output that is not 0 is not 0 before); a run of exactly \<open>T\<close> calls
  leaves both at exactly 0; and the values never increase: after any longer run they
  are at most what they are after a shorter one.  For
  \<open>set_waveform_output(delta_t)\<close> with a positive \<open>delta_t\<close>: below \<open>T\<close> it leaves
  the outputs as they were and \<open>T - delta_t\<close> cycles to live, from \<open>T\<close> on it
  leaves them at 0.
\<close>

theorem floating_decay:
  assumes "waveform g = 0" and "0 < sint (floating_output_ttl g)"
  shows "(length as < nat (sint (floating_output_ttl g)) \<longrightarrow>
            (\<exists>g'. set_waveform_outputs as g = Some g'
               \<and> waveform_output g' = waveform_output g \<and> osc3 g' = osc3 g
               \<and> (waveform_output g \<noteq> 0 \<longrightarrow> waveform_output g' \<noteq> 0)
               \<and> (osc3 g \<noteq> 0 \<longrightarrow> osc3 g' \<noteq> 0)))
       \<and> (length as = nat (sint (floating_output_ttl g)) \<longrightarrow>
            (\<exists>g'. set_waveform_outputs as g = Some g'
               \<and> waveform_output g' = 0 \<and> osc3 g' = 0))
       \<and> (\<exists>g1 g2. set_waveform_outputs as g = Some g1
               \<and> set_waveform_outputs (as @ bs) g = Some g2
               \<and> waveform_output g2 \<le> waveform_output g1 \<and> osc3 g2 \<le> osc3 g1)
       \<and> (0 < sint delta_t \<longrightarrow>
            (\<exists>g'. set_waveform_output_delta_with a delta_t g = Some g' \<and>
               (if sint delta_t < sint (floating_output_ttl g)
                then waveform_output g' = waveform_output g \<and> osc3 g' = osc3 g
                     \<and> floating_output_ttl g' = floating_output_ttl g - delta_t
                else waveform_output g' = 0 \<and> osc3 g' = 0 \<and> floating_output_ttl g' = 0)))"
proof -
  have count: "nat (sint (floating_output_ttl g)) = unat (floating_output_ttl g)"
    and nz: "floating_output_ttl g \<noteq> 0"
    using positive_count [OF assms(2)] by simp_all
  have hold: "\<exists>g'. set_waveform_outputs as g = Some g'
               \<and> waveform_output g' = waveform_output g \<and> osc3 g' = osc3 g
               \<and> (waveform_output g \<noteq> 0 \<longrightarrow> waveform_output g' \<noteq> 0)
               \<and> (osc3 g \<noteq> 0 \<longrightarrow> osc3 g' \<noteq> 0)"
    if "length as < nat (sint (floating_output_ttl g))"
    using floating_hold [OF assms(1), of as] that count by auto
  have zero: "\<exists>g'. set_waveform_outputs as g = Some g'
               \<and> waveform_output g' = 0 \<and> osc3 g' = 0"
    if "length as = nat (sint (floating_output_ttl g))"
    using floating_zero [OF assms(1) _ nz, of as] that count by auto
  have delta: "\<exists>g'. set_waveform_output_delta_with a delta_t g = Some g' \<and>
               (if sint delta_t < sint (floating_output_ttl g)
                then waveform_output g' = waveform_output g \<and> osc3 g' = osc3 g
                     \<and> floating_output_ttl g' = floating_output_ttl g - delta_t
                else waveform_output g' = 0 \<and> osc3 g' = 0 \<and> floating_output_ttl g' = 0)"
    if "0 < sint delta_t"
    using assms that by (rule floating_delta)
  show ?thesis
    using hold zero floating_monotone [OF assms(1), of as bs] delta by blast
qed

theorem floating_decay_witness:
  "waveform floating_generator = 0 \<and> 0 < sint (floating_output_ttl floating_generator)
   \<and> length [0, 0 :: reg24] < nat (sint (floating_output_ttl floating_generator))
   \<and> length [0, 0, 0 :: reg24] = nat (sint (floating_output_ttl floating_generator))
   \<and> 0 < sint (2 :: cycle_count)
   \<and> waveform_output floating_generator \<noteq> 0 \<and> osc3 floating_generator \<noteq> 0
   \<and> (\<exists>g'. set_waveform_outputs [0, 0] floating_generator = Some g'
          \<and> waveform_output g' = waveform_output floating_generator
          \<and> osc3 g' = osc3 floating_generator
          \<and> waveform_output g' \<noteq> 0 \<and> osc3 g' \<noteq> 0)
   \<and> (\<exists>g'. set_waveform_outputs [0, 0, 0] floating_generator = Some g'
          \<and> waveform_output g' = 0 \<and> osc3 g' = 0)
   \<and> (\<exists>g1 g2. set_waveform_outputs [0, 0] floating_generator = Some g1
          \<and> set_waveform_outputs ([0, 0] @ [0]) floating_generator = Some g2
          \<and> waveform_output g2 \<le> waveform_output g1 \<and> osc3 g2 \<le> osc3 g1)
   \<and> (\<exists>g'. set_waveform_output_delta_with 0 2 floating_generator = Some g' \<and>
          (if sint (2 :: cycle_count) < sint (floating_output_ttl floating_generator)
           then waveform_output g' = waveform_output floating_generator
                \<and> osc3 g' = osc3 floating_generator
                \<and> floating_output_ttl g' = floating_output_ttl floating_generator - 2
           else waveform_output g' = 0 \<and> osc3 g' = 0 \<and> floating_output_ttl g' = 0))"
proof -
  have w: "waveform floating_generator = 0"
    by (simp add: floating_generator_def idle_generator_def)
  have t: "floating_output_ttl floating_generator = 3"
    by (simp add: floating_generator_def)
  have p: "0 < sint (floating_output_ttl floating_generator)"
    unfolding t by simp
  have l2: "length [0, 0 :: reg24] < nat (sint (floating_output_ttl floating_generator))"
    unfolding t by simp
  have l3: "length [0, 0, 0 :: reg24] = nat (sint (floating_output_ttl floating_generator))"
    unfolding t by simp
  have d: "0 < sint (2 :: cycle_count)"
    by simp
  have o: "waveform_output floating_generator \<noteq> 0" "osc3 floating_generator \<noteq> 0"
    by (simp_all add: floating_generator_def)
  from floating_decay [OF w p, of "[0, 0]" "[0]" 2 0]
    floating_decay [OF w p, of "[0, 0, 0]" "[]" 2 0] w p l2 l3 d o
  show ?thesis by blast
qed

section \<open>Pure sawtooth\<close>

text \<open>
  C4.  When the waveform selector is 2 (sawtooth only), \<open>set_waveform_output\<close>
  returns with \<open>waveform_output\<close> equal to the upper 12 bits of the accumulator,
  \<open>accumulator >> 12\<close>, for every accumulator value in its 24 bits, and leaves the
  accumulator as it is.  The parts of the generator that are set outside wave.h are
  taken as the selector 2 implies them: the table \<open>wave\<close> is the sawtooth table
  (entry \<open>i\<close> is \<open>i\<close>), there is no ring modulation mask, and the masks for
  "no pulse" and "no noise" are all ones.
\<close>

theorem pure_sawtooth:
  assumes "waveform g = 2" and "accumulator g < 0x1000000" and "ring_msb_mask g = 0"
    and "\<forall>i<4096. wave g i = word_of_nat i"
    and "no_pulse g = 0xfff" and "no_noise_or_noise_output g = 0xfff"
  shows "\<exists>g'. set_waveform_output_with a g = Some g'
            \<and> waveform_output g' = drop_bit 12 (accumulator g)
            \<and> accumulator g' = accumulator g"
proof -
  have ix: "wave_index a g = unat (drop_bit 12 (accumulator g))"
    using assms(3) by (simp add: wave_index_def)
  have lt: "wave_index a g < 4096"
    unfolding ix using assms(2) by (rule upper12_lt)
  have w: "wave g (wave_index a g) = word_of_nat (unat (drop_bit 12 (accumulator g)))"
    using assms(4) lt ix by simp
  have sel: "waveform_output (select_output (wave_index a g) g) = drop_bit 12 (accumulator g)"
    using assms(1,5,6) saw_masks [OF assms(2)]
    by (simp add: select_output_def Let_def w)
  have "set_waveform_output_with a g =
          Some (push_pulse_level (write_back (drive_msb
                  (latch_osc3 (wave_index a g) (select_output (wave_index a g) g)))))"
    using assms(1) lt by (simp add: set_waveform_output_with_def Let_def)
  moreover have "waveform_output (push_pulse_level (write_back (drive_msb
                  (latch_osc3 (wave_index a g) (select_output (wave_index a g) g)))))
                 = drop_bit 12 (accumulator g)"
    using sel assms(1)
    by (simp add: push_pulse_level_def write_back_def drive_msb_def latch_osc3_def select_output_def Let_def)
  moreover have "accumulator (push_pulse_level (write_back (drive_msb
                  (latch_osc3 (wave_index a g) (select_output (wave_index a g) g)))))
                 = accumulator g"
    using assms(1)
    by (simp add: push_pulse_level_def write_back_def drive_msb_def latch_osc3_def select_output_def Let_def)
  ultimately show ?thesis by simp
qed

theorem pure_sawtooth_witness:
  "waveform sawtooth_generator = 2 \<and> accumulator sawtooth_generator < 0x1000000
   \<and> ring_msb_mask sawtooth_generator = 0
   \<and> wave sawtooth_generator = (\<lambda>i. word_of_nat i)
   \<and> no_pulse sawtooth_generator = 0xfff
   \<and> no_noise_or_noise_output sawtooth_generator = 0xfff
   \<and> accumulator sawtooth_generator = 0xabcdef
   \<and> (\<exists>g'. set_waveform_output_with 0x555555 sawtooth_generator = Some g'
          \<and> waveform_output g' = drop_bit 12 (accumulator sawtooth_generator)
          \<and> accumulator g' = accumulator sawtooth_generator)"
proof -
  have h: "waveform sawtooth_generator = 2" "accumulator sawtooth_generator < 0x1000000"
    "ring_msb_mask sawtooth_generator = 0"
    "\<forall>i<4096. wave sawtooth_generator i = word_of_nat i"
    "no_pulse sawtooth_generator = 0xfff" "no_noise_or_noise_output sawtooth_generator = 0xfff"
    "accumulator sawtooth_generator = 0xabcdef"
    "wave sawtooth_generator = (\<lambda>i. word_of_nat i)"
    by (simp_all add: sawtooth_generator_def idle_generator_def)
  from pure_sawtooth [OF h(1-6), of "0x555555"] h(1-3,5-8) show ?thesis by blast
qed

end
